theory Spec2Isabelle
  imports Complex_Main "HOL-Library.AList" "HOL-Library.Char_ord" "HOL-Library.List_Lexorder"
begin

section \<open>Numbers\<close>

text \<open>
  The comparer of \<^verbatim>\<open>test/compare.py\<close> works on Python floats (and on
  \<^verbatim>\<open>mathutils.Vector\<close>, whose components are floats). The embedding reads every
  float as the real number it denotes. In the voxel sets \<open>+\<close>, \<open>-\<close>, \<open>*\<close>, \<open>/\<close> and \<open><\<close>
  are the exact ones. Two results of floating-point arithmetic that decide a branch of the
  comparer are not computed by the embedding but taken as parameters (\<open>float_ops\<close>
  below), so that no rounding is assumed for them. Concrete inputs used below are taken
  where floating-point arithmetic is exact as well (zero, small integers, halves), so that
  they can be re-traced on the source by hand.

  \<^verbatim>\<open>round(x, n)\<close> rounds to \<open>n\<close> decimals, ties to even; \<^verbatim>\<open>int(x)\<close> truncates towards
  zero.
\<close>

definition round_half_even :: "real \<Rightarrow> int" where
  "round_half_even q =
     (let f = \<lfloor>q\<rfloor>; d = q - of_int f in
      if d < 1 / 2 then f
      else if 1 / 2 < d then f + 1
      else if even f then f else f + 1)"

definition py_round :: "real \<Rightarrow> nat \<Rightarrow> real" where
  "py_round q n = of_int (round_half_even (q * 10 ^ n)) / 10 ^ n"

definition py_int :: "real \<Rightarrow> int" where
  "py_int q = (if q < 0 then - \<lfloor>- q\<rfloor> else \<lfloor>q\<rfloor>)"

text \<open>
  The floats written \<^verbatim>\<open>0.9\<close> (line 46) and \<^verbatim>\<open>0.05\<close> (lines 437 and 448) are the doubles
  nearest to these decimals; their exact values are
  \<open>8106479329266893 / 2 ^ 53\<close> and \<open>3602879701896397 / 2 ^ 56\<close>.
\<close>

definition float_0_9 :: real where
  "float_0_9 = 8106479329266893 / 9007199254740992"

definition float_0_05 :: real where
  "float_0_05 = 3602879701896397 / 72057594037927936"

datatype py_error =
  AssertionError | IndexError | RuntimeError | ZeroDivisionError | ReporterAbort

section \<open>VertApproxData\<close>

text \<open>
  The frozen dataclass of lines 33-67. \<^verbatim>\<open>VertApproxData.new\<close> resizes each present vector
  to four components (\<^verbatim>\<open>Vector.resized(4)\<close> truncates, or pads with zeros) and rounds each
  component to two decimals, so a present field is a tuple of four numbers.
\<close>

type_synonym vec4 = "real \<times> real \<times> real \<times> real"

text \<open>
  The parameters for floating-point results. \<open>vector_dot fo u v\<close> is the value of
  \<^verbatim>\<open>Vector(u).dot(Vector(v))\<close> for two stored tuples (line 51): \<^verbatim>\<open>mathutils\<close> is imported,
  not defined, by the comparer, and it converts the components to single precision before
  it multiplies. \<open>float_sum_fabs fo s d\<close> is the value of
  \<^verbatim>\<open>sum(fabs(s - r) for (s, r) in zip(s, d))\<close> (lines 437 and 448) in Python's float
  arithmetic, for the tuples of rounded floats that the decimals \<open>s\<close> and \<open>d\<close> denote. Every
  statement below holds for all such parameters.
\<close>

record float_ops =
  vector_dot :: "vec4 \<Rightarrow> vec4 \<Rightarrow> real"
  float_sum_fabs :: "real list \<Rightarrow> real list \<Rightarrow> real"

record VertApproxData =
  normal :: "vec4 option"
  tangent :: "vec4 option"

definition resized4 :: "real list \<Rightarrow> real list" where
  "resized4 v = take 4 (v @ replicate 4 0)"

definition rounded_tuple4 :: "real list \<Rightarrow> vec4" where
  "rounded_tuple4 v =
     (case map (\<lambda>c. py_round c 2) (resized4 v) of
        [a, b, c, d] \<Rightarrow> (a, b, c, d)
      | _ \<Rightarrow> (0, 0, 0, 0))"

definition VertApproxData_new :: "real list option \<Rightarrow> real list option \<Rightarrow> VertApproxData" where
  "VertApproxData_new nrm tng =
     \<lparr> normal = (case nrm of None \<Rightarrow> None | Some v \<Rightarrow> Some (rounded_tuple4 v)),
       tangent = (case tng of None \<Rightarrow> None | Some v \<Rightarrow> Some (rounded_tuple4 v)) \<rparr>"

text \<open>
  The dot product in exact arithmetic. It is the value of the floating-point dot product
  wherever every product and every partial sum is a float, as for components 0 and 1; it
  is used for concrete evaluations only (\<open>exact_ops\<close> below).
\<close>

definition dot4 :: "vec4 \<Rightarrow> vec4 \<Rightarrow> real" where
  "dot4 u v =
     (case u of (a, b, c, d) \<Rightarrow> case v of (a', b', c', d') \<Rightarrow>
        a * a' + b * b' + c * c' + d * d')"

definition approx_eq :: "float_ops \<Rightarrow> VertApproxData \<Rightarrow> VertApproxData \<Rightarrow> bool" where
  "approx_eq fo self other =
     (let t = float_0_9 in
      case normal self of
        None \<Rightarrow> (case normal other of Some _ \<Rightarrow> False | None \<Rightarrow> True)
      | Some n \<Rightarrow>
          (case normal other of
             None \<Rightarrow> False
           | Some m \<Rightarrow> if vector_dot fo n m < t then False else True))"

section \<open>VertSet\<close>

text \<open>
  Lines 70-138. \<^verbatim>\<open>verts\<close> is a \<^verbatim>\<open>defaultdict\<close> from exact tuples to sets of
  \<^verbatim>\<open>VertApproxData\<close>: here an association list in insertion order whose values are lists
  without repetition. The exact tuple is any type \<open>'k\<close> with equality. Python does not fix
  the order in which a set is traversed; the model traverses in insertion order, and no
  statement below depends on that order.
\<close>

record 'k VertSet =
  verts :: "('k \<times> VertApproxData list) list"
  len :: nat

definition VertSet_init :: "'k VertSet" where
  "VertSet_init = \<lparr> verts = [], len = 0 \<rparr>"

definition get_verts :: "'k VertSet \<Rightarrow> 'k \<Rightarrow> VertApproxData list" where
  "get_verts s k = (case map_of (verts s) k of None \<Rightarrow> [] | Some l \<Rightarrow> l)"

definition keys :: "'k VertSet \<Rightarrow> 'k list" where
  "keys s = map fst (verts s)"

definition VertSet_add :: "'k VertSet \<Rightarrow> 'k \<Rightarrow> VertApproxData \<Rightarrow> 'k VertSet" where
  "VertSet_add s vert_exact vert_approx =
     \<lparr> verts = AList.update vert_exact (List.insert vert_approx (get_verts s vert_exact)) (verts s),
       len = len s + 1 \<rparr>"

definition exact_difference :: "'k VertSet \<Rightarrow> 'k VertSet \<Rightarrow> 'k set" where
  "exact_difference self other = set (keys self) - set (keys other)"

definition differing_va ::
  "float_ops \<Rightarrow> 'k VertSet \<Rightarrow> 'k VertSet \<Rightarrow> 'k \<Rightarrow> VertApproxData list" where
  "differing_va fo self other vert_exact =
     filter (\<lambda>v_a. \<not> list_ex (\<lambda>v_a_alt. approx_eq fo v_a v_a_alt) (get_verts other vert_exact))
       (get_verts self vert_exact)"

definition difference ::
  "float_ops \<Rightarrow> 'k VertSet \<Rightarrow> 'k VertSet \<Rightarrow> ('k \<times> VertApproxData list) list" where
  "difference fo self other =
     (let key_set = remdups (keys self) in
      map (\<lambda>vert_exact. (vert_exact, get_verts self vert_exact))
        (filter (\<lambda>k. k \<notin> set (keys other)) key_set)
      @ map (\<lambda>vert_exact. (vert_exact, differing_va fo self other vert_exact))
          (filter (\<lambda>k. 0 < length (differing_va fo self other k))
             (filter (\<lambda>k. k \<in> set (keys other)) key_set)))"

text \<open>A set built by a sequence of \<^verbatim>\<open>add\<close> calls on a fresh one.\<close>

definition VertSet_of :: "('k \<times> VertApproxData) list \<Rightarrow> 'k VertSet" where
  "VertSet_of adds = foldl (\<lambda>s (k, a). VertSet_add s k a) VertSet_init adds"

section \<open>FusedVertVoxelSet\<close>

text \<open>
  Lines 141-237. A position is a three-component \<^verbatim>\<open>Vector\<close>; the normal of a fused
  vertex may be \<^verbatim>\<open>None\<close>; the rounded bone-weight tuple is any type \<open>'b\<close> with equality.
  The field \<^verbatim>\<open>verts\<close> of this class is called \<open>fused_verts\<close> here (the record
  \<open>VertSet\<close> owns the name \<open>verts\<close>).

  \<^verbatim>\<open>voxels\<close> is a \<^verbatim>\<open>defaultdict(list)\<close>, modelled as an association list in insertion
  order. Reading \<^verbatim>\<open>d[k]\<close> at a missing key stores an empty list under \<open>k\<close> and returns it:
  \<open>dd_touch\<close> is the dictionary after the read and \<open>dd_get\<close> the list read.
\<close>

datatype Vector = Vector (vx: real) (vy: real) (vz: real)

type_synonym voxel = "int \<times> int \<times> int"

type_synonym 'b fused_vert = "Vector \<times> Vector option \<times> 'b"

record 'b FusedVertVoxelSet =
  voxels :: "(voxel \<times> nat list) list"
  voxel_size :: real
  fused_verts :: "'b fused_vert list"

definition FusedVertVoxelSet_init :: "real \<Rightarrow> 'b FusedVertVoxelSet" where
  "FusedVertVoxelSet_init vsz = \<lparr> voxels = [], voxel_size = vsz, fused_verts = [] \<rparr>"

definition default_voxel_size :: real where
  "default_voxel_size = 1 / 10000"

definition default_pos_epsilon :: real where
  "default_pos_epsilon = 1 / 100000"

definition dd_get :: "(voxel \<times> nat list) list \<Rightarrow> voxel \<Rightarrow> nat list" where
  "dd_get d k = (case map_of d k of None \<Rightarrow> [] | Some l \<Rightarrow> l)"

definition dd_touch :: "(voxel \<times> nat list) list \<Rightarrow> voxel \<Rightarrow> (voxel \<times> nat list) list" where
  "dd_touch d k = (if k \<in> fst ` set d then d else d @ [(k, [])])"

text \<open>
  \<^verbatim>\<open>add\<close> (lines 156-160). The float division raises \<^verbatim>\<open>ZeroDivisionError\<close> at a zero
  \<^verbatim>\<open>voxel_size\<close>; \<^verbatim>\<open>int\<close> truncates the quotient.
\<close>

definition voxel_of :: "real \<Rightarrow> Vector \<Rightarrow> voxel" where
  "voxel_of vsz p = (py_int (vx p / vsz), py_int (vy p / vsz), py_int (vz p / vsz))"

definition FusedVertVoxelSet_add ::
  "'b FusedVertVoxelSet \<Rightarrow> Vector \<Rightarrow> Vector option \<Rightarrow> 'b \<Rightarrow> py_error + 'b FusedVertVoxelSet" where
  "FusedVertVoxelSet_add s exact_pos exact_norm rounded_bw =
     (if voxel_size s = 0 then Inl ZeroDivisionError
      else
        let voxel = voxel_of (voxel_size s) exact_pos;
            d = dd_touch (voxels s) voxel
        in Inr (s \<lparr> voxels := AList.update voxel (dd_get d voxel @ [length (fused_verts s)]) d,
                    fused_verts := fused_verts s @ [(exact_pos, exact_norm, rounded_bw)] \<rparr>))"

fun add_all ::
  "'b FusedVertVoxelSet \<Rightarrow> 'b fused_vert list \<Rightarrow> py_error + 'b FusedVertVoxelSet" where
  "add_all s [] = Inr s"
| "add_all s ((p, n, bw) # rest) =
     (case FusedVertVoxelSet_add s p n bw of Inl e \<Rightarrow> Inl e | Inr s' \<Rightarrow> add_all s' rest)"

text \<open>
  \<^verbatim>\<open>check_one_to_one\<close> (lines 162-234) reads and writes objects that the caller may have
  passed twice, so the two sets live in a store, addressed by object references.
\<close>

type_synonym 'b heap = "nat \<Rightarrow> 'b FusedVertVoxelSet"

type_synonym candidate = "nat \<times> (real \<times> real \<times> real) option \<times> Vector"

type_synonym 'b unfused = "Vector \<times> 'b \<times> candidate list \<times> candidate list"

type_synonym 'b tally = "'b fused_vert list \<times> 'b unfused list \<times> nat set"

definition window :: "int \<Rightarrow> int list" where
  "window c = [c - 1, c, c + 1, c + 2]"

definition neighbour_keys :: "voxel \<Rightarrow> voxel list" where
  "neighbour_keys voxel_key =
     (case voxel_key of (k0, k1, k2) \<Rightarrow>
        concat (map (\<lambda>x. concat (map (\<lambda>y. map (\<lambda>z. (x, y, z)) (window k2)) (window k1)))
          (window k0)))"

definition length_squared_diff :: "Vector \<Rightarrow> Vector \<Rightarrow> real" where
  "length_squared_diff a b =
     (vx a - vx b) * (vx a - vx b) + (vy a - vy b) * (vy a - vy b) + (vz a - vz b) * (vz a - vz b)"

definition rounded_norm :: "Vector option \<Rightarrow> (real \<times> real \<times> real) option" where
  "rounded_norm other_norm =
     (case other_norm of
        None \<Rightarrow> None
      | Some n \<Rightarrow> Some (py_round (vx n) 3, py_round (vy n) 3, py_round (vz n) 3))"

text \<open>\<^verbatim>\<open>[(i, xs[i]) for i in idxs]\<close>, with the \<^verbatim>\<open>IndexError\<close> of a read out of range.\<close>

definition index_all :: "'a list \<Rightarrow> nat list \<Rightarrow> py_error + (nat \<times> 'a) list" where
  "index_all xs idxs =
     (if list_all (\<lambda>i. i < length xs) idxs then Inr (map (\<lambda>i. (i, xs ! i)) idxs)
      else Inl IndexError)"

text \<open>
  The buckets read for \<^verbatim>\<open>other_search_space\<close> (lines 188-194): each of the 64 reads
  \<^verbatim>\<open>other.voxels[(x, y, z)]\<close> goes through the \<^verbatim>\<open>defaultdict\<close>.
\<close>

fun gather_other ::
  "(voxel \<times> nat list) list \<Rightarrow> voxel list \<Rightarrow> nat list \<Rightarrow> nat list \<times> (voxel \<times> nat list) list" where
  "gather_other d [] acc = (acc, d)"
| "gather_other d (k # ks) acc = (let d' = dd_touch d k in gather_other d' ks (acc @ dd_get d' k))"

definition other_search_space ::
  "'b heap \<Rightarrow> nat \<Rightarrow> voxel \<Rightarrow> py_error + ((nat \<times> 'b fused_vert) list \<times> 'b heap)" where
  "other_search_space h other voxel_key =
     (case gather_other (voxels (h other)) (neighbour_keys voxel_key) [] of
        (idxs, d') \<Rightarrow>
          (case index_all (fused_verts (h other)) idxs of
             Inl e \<Rightarrow> Inl e
           | Inr space \<Rightarrow> Inr (space, h(other := (h other) \<lparr> voxels := d' \<rparr>))))"

text \<open>
  \<^verbatim>\<open>self_search_space\<close> (lines 195-202) reads only the keys that are in \<^verbatim>\<open>self.voxels\<close>.
\<close>

definition self_search_space ::
  "'b heap \<Rightarrow> nat \<Rightarrow> voxel \<Rightarrow> py_error + (nat \<times> 'b fused_vert) list" where
  "self_search_space h self voxel_key =
     index_all (fused_verts (h self))
       (concat (map (dd_get (voxels (h self)))
          (filter (\<lambda>k. k \<in> fst ` set (voxels (h self))) (neighbour_keys voxel_key))))"

definition potential_verts ::
  "(nat \<times> 'b fused_vert) list \<Rightarrow> Vector \<Rightarrow> 'b \<Rightarrow> real \<Rightarrow> candidate list" where
  "potential_verts space self_v_pos self_v_rounded_bw pos_epsilon_sqr =
     map (\<lambda>(other_fused_idx, other_pos, other_norm, other_rounded_bw).
            (other_fused_idx, rounded_norm other_norm, other_pos))
       (filter (\<lambda>(other_fused_idx, other_pos, other_norm, other_rounded_bw).
                  other_rounded_bw = self_v_rounded_bw \<and>
                  length_squared_diff self_v_pos other_pos < pos_epsilon_sqr)
          space)"

text \<open>The loop over the vertices of one voxel (lines 204-226).\<close>

fun vert_loop ::
  "'b fused_vert list \<Rightarrow> (nat \<times> 'b fused_vert) list \<Rightarrow> (nat \<times> 'b fused_vert) list \<Rightarrow> real \<Rightarrow>
   nat list \<Rightarrow> 'b tally \<Rightarrow> py_error + 'b tally" where
  "vert_loop self_verts other_space self_space eps2 [] acc = Inr acc"
| "vert_loop self_verts other_space self_space eps2 (self_vert # rest)
     (has_no_equiv_in_other, was_unfused_in_other, counted_other_verts) =
     (if length self_verts \<le> self_vert then Inl IndexError
      else
        case self_verts ! self_vert of (self_v_pos, self_v_norm, self_v_rounded_bw) \<Rightarrow>
          let potential_other_verts = potential_verts other_space self_v_pos self_v_rounded_bw eps2;
              counted = counted_other_verts \<union> set (map fst potential_other_verts);
              potential_self_verts = potential_verts self_space self_v_pos self_v_rounded_bw eps2
          in
            if length potential_other_verts = 0 then
              vert_loop self_verts other_space self_space eps2 rest
                (has_no_equiv_in_other @ [(self_v_pos, self_v_norm, self_v_rounded_bw)],
                 was_unfused_in_other, counted)
            else if length potential_self_verts < length potential_other_verts then
              vert_loop self_verts other_space self_space eps2 rest
                (has_no_equiv_in_other,
                 was_unfused_in_other @
                   [(self_v_pos, self_v_rounded_bw, potential_self_verts, potential_other_verts)],
                 counted)
            else
              vert_loop self_verts other_space self_space eps2 rest
                (has_no_equiv_in_other, was_unfused_in_other, counted))"

definition voxel_body ::
  "'b heap \<Rightarrow> nat \<Rightarrow> nat \<Rightarrow> real \<Rightarrow> voxel \<Rightarrow> nat list \<Rightarrow> 'b tally \<Rightarrow>
   py_error + ('b tally \<times> 'b heap)" where
  "voxel_body h self other eps2 voxel_key vs acc =
     (case other_search_space h other voxel_key of
        Inl e \<Rightarrow> Inl e
      | Inr (other_space, h') \<Rightarrow>
          (case self_search_space h' self voxel_key of
             Inl e \<Rightarrow> Inl e
           | Inr self_space \<Rightarrow>
               (case vert_loop (fused_verts (h' self)) other_space self_space eps2 vs acc of
                  Inl e \<Rightarrow> Inl e
                | Inr acc' \<Rightarrow> Inr (acc', h'))))"

text \<open>
  The loop over \<^verbatim>\<open>self.voxels.items()\<close> (line 187). A dictionary iterator remembers the
  size of the dictionary when it is created; each request for the next item first
  compares that size with the present one and raises \<^verbatim>\<open>RuntimeError\<close> (dictionary changed
  size during iteration) when they differ, also on the request that would end the loop.
  The loop only ever appends keys, so the items are those of the dictionary at the start,
  in order; \<open>n0\<close> is the remembered size.
\<close>

fun voxel_loop ::
  "'b heap \<Rightarrow> nat \<Rightarrow> nat \<Rightarrow> real \<Rightarrow> nat \<Rightarrow> (voxel \<times> nat list) list \<Rightarrow> 'b tally \<Rightarrow>
   py_error + ('b tally \<times> 'b heap)" where
  "voxel_loop h self other eps2 n0 [] acc =
     (if length (voxels (h self)) \<noteq> n0 then Inl RuntimeError else Inr (acc, h))"
| "voxel_loop h self other eps2 n0 ((voxel_key, vs) # rest) acc =
     (if length (voxels (h self)) \<noteq> n0 then Inl RuntimeError
      else
        case voxel_body h self other eps2 voxel_key vs acc of
          Inl e \<Rightarrow> Inl e
        | Inr (acc', h') \<Rightarrow> voxel_loop h' self other eps2 n0 rest acc')"

definition check_one_to_one ::
  "'b heap \<Rightarrow> nat \<Rightarrow> nat \<Rightarrow> real \<Rightarrow>
   py_error + (('b fused_vert list \<times> 'b unfused list \<times> 'b fused_vert list) \<times> 'b heap)" where
  "check_one_to_one h self other pos_epsilon =
     (if voxel_size (h self) \<noteq> voxel_size (h other) then Inl AssertionError
      else if \<not> pos_epsilon < voxel_size (h self) then Inl AssertionError
      else
        let pos_epsilon_sqr = pos_epsilon * pos_epsilon in
        case voxel_loop h self other pos_epsilon_sqr (length (voxels (h self))) (voxels (h self))
               ([], [], {}) of
          Inl e \<Rightarrow> Inl e
        | Inr ((has_no_equiv_in_other, was_unfused_in_other, counted_other_verts), h') \<Rightarrow>
            Inr ((has_no_equiv_in_other, was_unfused_in_other,
                  map (\<lambda>other_i. fused_verts (h' other) ! other_i)
                    (filter (\<lambda>other_i. other_i \<notin> counted_other_verts)
                       [0 ..< length (fused_verts (h' other))])),
                 h'))"

section \<open>The error reporter\<close>

text \<open>
  The \<^verbatim>\<open>ErrorReporter\<close> classes are imported, not defined, by \<^verbatim>\<open>compare.py\<close>. A reporter
  is taken as a parameter: its policy \<open>pol\<close> says for each severity whether the call raises.
  Every call is recorded, in order, with its severity and the kind of its message (the
  formatted text of a message is not modelled, and building it is taken not to raise).
\<close>

datatype severity = Info | Recoverable | Fatal

datatype message =
  ExactDataDiffers | ApproxDataDiffers | FusedDontMatch | FusedCountDiffers |
  MeshesIdentical | FieldDiffers string | VectorDiffers string | VectorDiffersSlightly string |
  MatrixDiffers string | MatrixDiffersSlightly string | AttributeSetsDiffer |
  ChildrenSetsDiffer | ChildrenOrderDiffers

type_synonym log = "(severity \<times> message) list"

type_synonym 'r reported = "(py_error + 'r) \<times> log"

definition report :: "(severity \<Rightarrow> bool) \<Rightarrow> severity \<Rightarrow> message \<Rightarrow> log \<Rightarrow> unit reported" where
  "report pol sev msg lg = (if pol sev then Inl ReporterAbort else Inr (), lg @ [(sev, msg)])"

definition and_then :: "'r reported \<Rightarrow> ('r \<Rightarrow> log \<Rightarrow> 's reported) \<Rightarrow> 's reported" where
  "and_then r f = (case r of (Inl e, lg) \<Rightarrow> (Inl e, lg) | (Inr a, lg) \<Rightarrow> f a lg)"

section \<open>Meshes\<close>

text \<open>
  The mesh and vertex-buffer classes are imported, not defined. A vertex buffer is the list
  of its slots, together with the truth value of \<^verbatim>\<open>buf.bone_data and buf.weight_data\<close>,
  which line 274 asserts. For slot \<open>i\<close> the model keeps what the comparer reads of it: the
  exact tuple that \<^verbatim>\<open>get_unique_verts\<close> builds (lines 247-259), the exact tuple that
  \<^verbatim>\<open>get_unique_skinned_verts\<close> builds (lines 276-290), and the raw normal and tangent
  handed to \<^verbatim>\<open>VertApproxData.new\<close>. Reading a slot beyond the buffer raises
  \<^verbatim>\<open>IndexError\<close>.
\<close>

record 'k vertex_slot =
  exact_unskinned :: 'k
  exact_skinned :: 'k
  raw_normal :: "real list option"
  raw_tangent :: "real list option"

record 'k vertex_buffer =
  bone_and_weight_data :: bool
  slots :: "'k vertex_slot list"

record ('k, 'a) GMDMesh =
  attribute_set :: 'a
  triangle_strip_noreset_indices :: "nat list"
  vertices_data :: "'k vertex_buffer"

fun add_unique_verts ::
  "'k vertex_buffer \<Rightarrow> nat list \<Rightarrow> 'k VertSet \<Rightarrow> py_error + 'k VertSet" where
  "add_unique_verts buf [] all_verts = Inr all_verts"
| "add_unique_verts buf (i # rest) all_verts =
     (if length (slots buf) \<le> i then Inl IndexError
      else add_unique_verts buf rest
             (VertSet_add all_verts (exact_unskinned (slots buf ! i))
                (VertApproxData_new (raw_normal (slots buf ! i)) (raw_tangent (slots buf ! i)))))"

fun get_unique_verts_from :: "'k VertSet \<Rightarrow> ('k, 'a) GMDMesh list \<Rightarrow> py_error + 'k VertSet" where
  "get_unique_verts_from all_verts [] = Inr all_verts"
| "get_unique_verts_from all_verts (gmd_mesh # ms) =
     (case add_unique_verts (vertices_data gmd_mesh)
             (remdups (triangle_strip_noreset_indices gmd_mesh)) all_verts of
        Inl e \<Rightarrow> Inl e
      | Inr all_verts' \<Rightarrow> get_unique_verts_from all_verts' ms)"

definition get_unique_verts :: "('k, 'a) GMDMesh list \<Rightarrow> py_error + 'k VertSet" where
  "get_unique_verts ms = get_unique_verts_from VertSet_init ms"

text \<open>
  In \<^verbatim>\<open>get_unique_skinned_verts\<close> the assertion of line 274 comes first in the loop body,
  before any slot is read.
\<close>

fun add_unique_skinned_verts ::
  "'k vertex_buffer \<Rightarrow> nat list \<Rightarrow> 'k VertSet \<Rightarrow> py_error + 'k VertSet" where
  "add_unique_skinned_verts buf [] all_verts = Inr all_verts"
| "add_unique_skinned_verts buf (i # rest) all_verts =
     (if \<not> bone_and_weight_data buf then Inl AssertionError
      else if length (slots buf) \<le> i then Inl IndexError
      else
        add_unique_skinned_verts buf rest
          (VertSet_add all_verts (exact_skinned (slots buf ! i))
             (VertApproxData_new (raw_normal (slots buf ! i)) (raw_tangent (slots buf ! i)))))"

fun get_unique_skinned_verts_from ::
  "'k VertSet \<Rightarrow> ('k, 'a) GMDMesh list \<Rightarrow> py_error + 'k VertSet" where
  "get_unique_skinned_verts_from all_verts [] = Inr all_verts"
| "get_unique_skinned_verts_from all_verts (gmd_mesh # ms) =
     (case add_unique_skinned_verts (vertices_data gmd_mesh)
             (remdups (triangle_strip_noreset_indices gmd_mesh)) all_verts of
        Inl e \<Rightarrow> Inl e
      | Inr all_verts' \<Rightarrow> get_unique_skinned_verts_from all_verts' ms)"

definition get_unique_skinned_verts :: "('k, 'a) GMDMesh list \<Rightarrow> py_error + 'k VertSet" where
  "get_unique_skinned_verts ms = get_unique_skinned_verts_from VertSet_init ms"

section \<open>The mesh equivalence driver\<close>

text \<open>\<^verbatim>\<open>compare_same_layout_meshes\<close> (lines 380-422).\<close>

definition unique_verts_of :: "bool \<Rightarrow> ('k, 'a) GMDMesh list \<Rightarrow> py_error + 'k VertSet" where
  "unique_verts_of skinned ms =
     (if skinned then get_unique_skinned_verts ms else get_unique_verts ms)"

definition compare_vert_sets ::
  "(severity \<Rightarrow> bool) \<Rightarrow> float_ops \<Rightarrow> 'k VertSet \<Rightarrow> 'k VertSet \<Rightarrow> log \<Rightarrow> bool reported" where
  "compare_vert_sets pol fo src_vertices dst_vertices lg =
     (let src_but_not_dst_exact = exact_difference src_vertices dst_vertices;
          dst_but_not_src_exact = exact_difference dst_vertices src_vertices
      in
        if src_but_not_dst_exact \<noteq> {} \<or> dst_but_not_src_exact \<noteq> {} then
          and_then (report pol Fatal ExactDataDiffers lg) (\<lambda>_ lg'. (Inr False, lg'))
        else
          let src_but_not_dst = difference fo src_vertices dst_vertices;
              dst_but_not_src = difference fo dst_vertices src_vertices
          in
            if src_but_not_dst \<noteq> [] \<or> dst_but_not_src \<noteq> [] then
              and_then (report pol Recoverable ApproxDataDiffers lg) (\<lambda>_ lg'. (Inr False, lg'))
            else (Inr True, lg))"

definition compare_same_layout_meshes ::
  "(severity \<Rightarrow> bool) \<Rightarrow> float_ops \<Rightarrow> bool \<Rightarrow> ('k, 'a) GMDMesh list \<Rightarrow> ('k, 'a) GMDMesh list \<Rightarrow> log \<Rightarrow>
   bool reported" where
  "compare_same_layout_meshes pol fo skinned src dst lg =
     (case unique_verts_of skinned src of
        Inl e \<Rightarrow> (Inl e, lg)
      | Inr src_vertices \<Rightarrow>
          (case unique_verts_of skinned dst of
             Inl e \<Rightarrow> (Inl e, lg)
           | Inr dst_vertices \<Rightarrow> compare_vert_sets pol fo src_vertices dst_vertices lg))"

text \<open>
  \<^verbatim>\<open>compare_same_layout_mesh_vertex_fusions\<close> (lines 299-377). The welding function
  \<^verbatim>\<open>vertex_fusion\<close> and \<^verbatim>\<open>make_bone_indices_consistent\<close> are imported, not defined: the
  parameter \<open>fused\<close> gives, for a mesh list, the \<^verbatim>\<open>(exact_pos, norm, rounded_bw)\<close> of every
  fused vertex in the order in which \<^verbatim>\<open>find_fusion_output_vs\<close> adds them. The two sets
  are fresh objects, at references 0 and 1 of the store.
\<close>

definition find_fusion_output_vs ::
  "(bool \<Rightarrow> ('k, 'a) GMDMesh list \<Rightarrow> 'b fused_vert list) \<Rightarrow> bool \<Rightarrow> ('k, 'a) GMDMesh list \<Rightarrow>
   py_error + 'b FusedVertVoxelSet" where
  "find_fusion_output_vs fused skinned ms =
     add_all (FusedVertVoxelSet_init default_voxel_size) (fused skinned ms)"

definition compare_fused_sets ::
  "(severity \<Rightarrow> bool) \<Rightarrow> 'b FusedVertVoxelSet \<Rightarrow> 'b FusedVertVoxelSet \<Rightarrow> log \<Rightarrow> bool reported" where
  "compare_fused_sets pol src_fused_vs dst_fused_vs lg =
     (let src_n_fused_vs = length (fused_verts src_fused_vs);
          dst_n_fused_vs = length (fused_verts dst_fused_vs);
          h = (\<lambda>r. if r = 0 then src_fused_vs else dst_fused_vs)
      in
        case check_one_to_one h 0 (Suc 0) default_pos_epsilon of
          Inl e \<Rightarrow> (Inl e, lg)
        | Inr ((src_vs_with_no_equiv, src_vs_unfused_in_dst, dst_vs_with_no_equiv_in_src), h') \<Rightarrow>
            if src_vs_with_no_equiv \<noteq> [] \<or> src_vs_unfused_in_dst \<noteq> [] \<or>
               dst_vs_with_no_equiv_in_src \<noteq> [] then
              and_then (report pol Fatal FusedDontMatch lg) (\<lambda>_ lg'. (Inr False, lg'))
            else if src_n_fused_vs \<noteq> dst_n_fused_vs then
              and_then (report pol Recoverable FusedCountDiffers lg) (\<lambda>_ lg'. (Inr True, lg'))
            else (Inr True, lg))"

definition compare_same_layout_mesh_vertex_fusions ::
  "(severity \<Rightarrow> bool) \<Rightarrow> (bool \<Rightarrow> ('k, 'a) GMDMesh list \<Rightarrow> 'b fused_vert list) \<Rightarrow> bool \<Rightarrow>
   ('k, 'a) GMDMesh list \<Rightarrow> ('k, 'a) GMDMesh list \<Rightarrow> log \<Rightarrow> bool reported" where
  "compare_same_layout_mesh_vertex_fusions pol fused skinned src dst lg =
     (case find_fusion_output_vs fused skinned src of
        Inl e \<Rightarrow> (Inl e, lg)
      | Inr src_fused_vs \<Rightarrow>
          (case find_fusion_output_vs fused skinned dst of
             Inl e \<Rightarrow> (Inl e, lg)
           | Inr dst_fused_vs \<Rightarrow> compare_fused_sets pol src_fused_vs dst_fused_vs lg))"

section \<open>The hierarchy comparator\<close>

text \<open>
  The node classes are imported, not defined. A node carries its Python class
  (\<^verbatim>\<open>isinstance\<close> is a test on it), the fields that \<^verbatim>\<open>compare_single_node_pair\<close> reads,
  its meshes (read only for object nodes) and its children. \<^verbatim>\<open>str(m.attribute_set)\<close> is
  the parameter \<open>attr_str\<close>.
\<close>

datatype NodeType = MatrixTransform | UnskinnedMesh | SkinnedMesh

datatype node_class = GMDBone | GMDSkinnedObject | GMDUnskinnedObject

datatype ('k, 'a) GMDNode =
  GMDNode (name: string) (node_class: node_class) (node_type: NodeType)
    (pos: "real list") (rot: "real list") (scale: "real list") (world_pos: "real list")
    (anim_axis: "real list") (flags: "int list") (matrix: "real list list")
    (mesh_list: "('k, 'a) GMDMesh list") (children: "('k, 'a) GMDNode list")

definition compare_field :: "(severity \<Rightarrow> bool) \<Rightarrow> string \<Rightarrow> bool \<Rightarrow> log \<Rightarrow> unit reported" where
  "compare_field pol f differs lg =
     (if differs then report pol Fatal (FieldDiffers f) lg else (Inr (), lg))"

text \<open>
  The sum of absolute differences in exact arithmetic, used for concrete evaluations only
  (\<open>exact_ops\<close> below); the comparer's own sum is \<open>float_sum_fabs\<close>.
\<close>

definition sum_fabs :: "real list \<Rightarrow> real list \<Rightarrow> real" where
  "sum_fabs src_f dst_f = sum_list (map (\<lambda>(s, r). \<bar>s - r\<bar>) (zip src_f dst_f))"

text \<open>
  Lines 433-449. The components are rounded to three decimals and the two tuples compared;
  when they differ, the sum of the absolute differences of the rounded floats, as Python
  computes it, is compared with the float \<^verbatim>\<open>0.05\<close>.
\<close>

definition compare_vec_field ::
  "(severity \<Rightarrow> bool) \<Rightarrow> float_ops \<Rightarrow> string \<Rightarrow> real list \<Rightarrow> real list \<Rightarrow> log \<Rightarrow>
   unit reported" where
  "compare_vec_field pol fo f src_v dst_v lg =
     (let src_f = map (\<lambda>x. py_round x 3) src_v;
          dst_f = map (\<lambda>x. py_round x 3) dst_v
      in
        if src_f \<noteq> dst_f then
          (if float_0_05 < float_sum_fabs fo src_f dst_f then
             report pol Fatal (VectorDiffers f) lg
           else report pol Recoverable (VectorDiffersSlightly f) lg)
        else (Inr (), lg))"

definition compare_mat_field ::
  "(severity \<Rightarrow> bool) \<Rightarrow> float_ops \<Rightarrow> string \<Rightarrow> real list list \<Rightarrow> real list list \<Rightarrow> log \<Rightarrow>
   unit reported" where
  "compare_mat_field pol fo f src_m dst_m lg =
     (let src_f = map (map (\<lambda>x. py_round x 3)) src_m;
          dst_f = map (map (\<lambda>x. py_round x 3)) dst_m
      in
        if src_f \<noteq> dst_f then
          (if float_0_05 < float_sum_fabs fo (concat src_f) (concat dst_f) then
             report pol Fatal (MatrixDiffers f) lg
           else report pol Recoverable (MatrixDiffersSlightly f) lg)
        else (Inr (), lg))"

text \<open>The first-seen list of attribute sets (lines 492-495).\<close>

fun unique_attr_sets_from :: "'a list \<Rightarrow> 'a list \<Rightarrow> 'a list" where
  "unique_attr_sets_from acc [] = acc"
| "unique_attr_sets_from acc (a # rest) =
     unique_attr_sets_from (if a \<in> set acc then acc else acc @ [a]) rest"

text \<open>The loop of lines 498-508; \<open>identical\<close> is the flag it updates.\<close>

fun compare_attr_groups ::
  "(severity \<Rightarrow> bool) \<Rightarrow> float_ops \<Rightarrow> bool \<Rightarrow> ('k, 'a) GMDMesh list \<Rightarrow>
   ('k, 'a) GMDMesh list \<Rightarrow> 'a list \<Rightarrow> bool \<Rightarrow> log \<Rightarrow> bool reported" where
  "compare_attr_groups pol fo skinned src_meshes dst_meshes [] identical lg = (Inr identical, lg)"
| "compare_attr_groups pol fo skinned src_meshes dst_meshes (attr # rest) identical lg =
     and_then
       (compare_same_layout_meshes pol fo skinned
          (filter (\<lambda>m. attribute_set m = attr) src_meshes)
          (filter (\<lambda>m. attribute_set m = attr) dst_meshes) lg)
       (\<lambda>same lg'.
          compare_attr_groups pol fo skinned src_meshes dst_meshes rest
            (if \<not> same then False else identical) lg')"

text \<open>Lines 489-512: the vertex comparison of one pair of object nodes.\<close>

definition compare_node_vertices ::
  "(severity \<Rightarrow> bool) \<Rightarrow> float_ops \<Rightarrow> (bool \<Rightarrow> ('k, 'a) GMDMesh list \<Rightarrow> 'b fused_vert list) \<Rightarrow> bool \<Rightarrow>
   ('k, 'a) GMDMesh list \<Rightarrow> ('k, 'a) GMDMesh list \<Rightarrow> log \<Rightarrow> unit reported" where
  "compare_node_vertices pol fo fused skinned src_meshes dst_meshes lg =
     and_then
       (compare_attr_groups pol fo skinned src_meshes dst_meshes
          (unique_attr_sets_from [] (map attribute_set src_meshes)) True lg)
       (\<lambda>identical lg1.
          and_then (compare_same_layout_mesh_vertex_fusions pol fused skinned src_meshes dst_meshes lg1)
            (\<lambda>fusions_same lg2.
               if (if \<not> fusions_same then False else identical) then
                 report pol Info MeshesIdentical lg2
               else (Inr (), lg2)))"

text \<open>Lines 465-512: what follows the field comparisons.\<close>

definition compare_node_meshes ::
  "(severity \<Rightarrow> bool) \<Rightarrow> float_ops \<Rightarrow> (bool \<Rightarrow> ('k, 'a) GMDMesh list \<Rightarrow> 'b fused_vert list) \<Rightarrow> ('a \<Rightarrow> string) \<Rightarrow>
   bool \<Rightarrow> bool \<Rightarrow> ('k, 'a) GMDNode \<Rightarrow> ('k, 'a) GMDNode \<Rightarrow> log \<Rightarrow> unit reported" where
  "compare_node_meshes pol fo fused attr_str skinned vertices src dst lg =
     (if node_type src = node_type dst then
        (if node_type src = MatrixTransform then
           (if node_class src = GMDBone then (Inr (), lg) else (Inl AssertionError, lg))
         else if node_class src = GMDBone then (Inl AssertionError, lg)
         else if node_class dst = GMDBone then (Inl AssertionError, lg)
         else
           let sorted_attrs_src = sort (remdups (map (\<lambda>m. attr_str (attribute_set m)) (mesh_list src)));
               sorted_attrs_dst = sort (remdups (map (\<lambda>m. attr_str (attribute_set m)) (mesh_list dst)))
           in
             and_then
               (if sorted_attrs_src \<noteq> sorted_attrs_dst then report pol Fatal AttributeSetsDiffer lg
                else (Inr (), lg))
               (\<lambda>_ lg1.
                  if vertices then
                    compare_node_vertices pol fo fused skinned (mesh_list src) (mesh_list dst) lg1
                  else (Inr (), lg1)))
      else (Inr (), lg))"

text \<open>\<^verbatim>\<open>compare_single_node_pair\<close> (lines 425-512).\<close>

definition compare_single_node_pair ::
  "(severity \<Rightarrow> bool) \<Rightarrow> float_ops \<Rightarrow> (bool \<Rightarrow> ('k, 'a) GMDMesh list \<Rightarrow> 'b fused_vert list) \<Rightarrow> ('a \<Rightarrow> string) \<Rightarrow>
   bool \<Rightarrow> bool \<Rightarrow> ('k, 'a) GMDNode \<Rightarrow> ('k, 'a) GMDNode \<Rightarrow> log \<Rightarrow> unit reported" where
  "compare_single_node_pair pol fo fused attr_str skinned vertices src dst lg =
     and_then (compare_field pol ''node_type'' (node_type src \<noteq> node_type dst) lg) (\<lambda>_ lg.
     and_then (compare_vec_field pol fo ''pos'' (pos src) (pos dst) lg) (\<lambda>_ lg.
     and_then (compare_vec_field pol fo ''rot'' (rot src) (rot dst) lg) (\<lambda>_ lg.
     and_then (compare_vec_field pol fo ''scale'' (scale src) (scale dst) lg) (\<lambda>_ lg.
     and_then (compare_vec_field pol fo ''world_pos'' (world_pos src) (world_pos dst) lg) (\<lambda>_ lg.
     and_then (compare_vec_field pol fo ''anim_axis'' (anim_axis src) (anim_axis dst) lg) (\<lambda>_ lg.
     and_then (compare_field pol ''flags'' (flags src \<noteq> flags dst) lg) (\<lambda>_ lg.
     and_then
       (if node_class src \<noteq> GMDSkinnedObject then
          compare_mat_field pol fo ''matrix'' (matrix src) (matrix dst) lg
        else (Inr (), lg)) (\<lambda>_ lg.
     compare_node_meshes pol fo fused attr_str skinned vertices src dst lg))))))))"

text \<open>
  \<^verbatim>\<open>recursive_compare_node_lists\<close> (lines 515-531); \<open>compare_children\<close> is its loop over
  \<^verbatim>\<open>zip(src, dst)\<close>.
\<close>

function (sequential) recursive_compare_node_lists ::
  "(severity \<Rightarrow> bool) \<Rightarrow> float_ops \<Rightarrow> (bool \<Rightarrow> ('k, 'a) GMDMesh list \<Rightarrow> 'b fused_vert list) \<Rightarrow> ('a \<Rightarrow> string) \<Rightarrow>
   bool \<Rightarrow> bool \<Rightarrow> ('k, 'a) GMDNode list \<Rightarrow> ('k, 'a) GMDNode list \<Rightarrow> log \<Rightarrow> unit reported"
and compare_children ::
  "(severity \<Rightarrow> bool) \<Rightarrow> float_ops \<Rightarrow> (bool \<Rightarrow> ('k, 'a) GMDMesh list \<Rightarrow> 'b fused_vert list) \<Rightarrow> ('a \<Rightarrow> string) \<Rightarrow>
   bool \<Rightarrow> bool \<Rightarrow> ('k, 'a) GMDNode list \<Rightarrow> ('k, 'a) GMDNode list \<Rightarrow> log \<Rightarrow> unit reported" where
  "recursive_compare_node_lists pol fo fused attr_str skinned vertices src dst lg =
     and_then
       (if set (map name src) \<noteq> set (map name dst) then report pol Fatal ChildrenSetsDiffer lg
        else (Inr (), lg)) (\<lambda>_ lg1.
     and_then
       (if map name src \<noteq> map name dst then report pol Fatal ChildrenOrderDiffers lg1
        else (Inr (), lg1)) (\<lambda>_ lg2.
     compare_children pol fo fused attr_str skinned vertices src dst lg2))"
| "compare_children pol fo fused attr_str skinned vertices [] dst lg = (Inr (), lg)"
| "compare_children pol fo fused attr_str skinned vertices (child_src # ss) [] lg = (Inr (), lg)"
| "compare_children pol fo fused attr_str skinned vertices (child_src # ss) (child_dst # ds) lg =
     and_then (compare_single_node_pair pol fo fused attr_str skinned vertices child_src child_dst lg)
       (\<lambda>_ lg1.
     and_then
       (recursive_compare_node_lists pol fo fused attr_str skinned vertices
          (children child_src) (children child_dst) lg1) (\<lambda>_ lg2.
     compare_children pol fo fused attr_str skinned vertices ss ds lg2))"
  by pat_completeness auto
termination
proof (relation "measure (\<lambda>p. case p of
          Inl (_, _, _, _, _, _, src, _, _) \<Rightarrow> 2 * size_list size src + 1
        | Inr (_, _, _, _, _, _, src, _, _) \<Rightarrow> 2 * size_list size src)", goal_cases)
  case 1
  show ?case by simp
next
  case 2
  show ?case by simp
next
  case (3 pol fo fused attr_str skinned vertices child_src)
  show ?case by (cases child_src) simp
next
  case 4
  show ?case by simp
qed

section \<open>Words of the specification\<close>


section \<open>Invariants of the voxel sets\<close>

text \<open>
  \<open>idx_ok d n\<close>: every index stored in the dictionary \<open>d\<close> is below \<open>n\<close>.
  \<open>search_idxs d k\<close>: the indices found in the 64 buckets around \<open>k\<close>.
  \<open>touched h h' other\<close>: the store \<open>h'\<close> differs from \<open>h\<close> at most in the dictionary of
  the object \<open>other\<close>, and there only by buckets that read as empty.
  \<open>wf_voxel_set s\<close>: the keys of \<open>s\<close> are distinct, its stored indices are indices of
  \<open>fused_verts s\<close>, and every vertex is stored in some bucket; every set built by \<^verbatim>\<open>add\<close>
  is of this kind.
\<close>

definition idx_ok :: "(voxel \<times> nat list) list \<Rightarrow> nat \<Rightarrow> bool" where
  "idx_ok d n \<longleftrightarrow> (\<forall>(k, l) \<in> set d. \<forall>i \<in> set l. i < n)"

definition search_idxs :: "(voxel \<times> nat list) list \<Rightarrow> voxel \<Rightarrow> nat list" where
  "search_idxs d k = concat (map (dd_get d) (neighbour_keys k))"

definition touched :: "'b heap \<Rightarrow> 'b heap \<Rightarrow> nat \<Rightarrow> bool" where
  "touched h h' other \<longleftrightarrow>
     (\<forall>r. r \<noteq> other \<longrightarrow> h' r = h r) \<and>
     fused_verts (h' other) = fused_verts (h other) \<and>
     voxel_size (h' other) = voxel_size (h other) \<and>
     (\<forall>k. dd_get (voxels (h' other)) k = dd_get (voxels (h other)) k) \<and>
     (\<forall>n. idx_ok (voxels (h other)) n \<longrightarrow> idx_ok (voxels (h' other)) n)"

definition wf_voxel_set :: "'b FusedVertVoxelSet \<Rightarrow> bool" where
  "wf_voxel_set s \<longleftrightarrow>
     distinct (map fst (voxels s)) \<and>
     idx_ok (voxels s) (length (fused_verts s)) \<and>
     (\<forall>i < length (fused_verts s). \<exists>(k, l) \<in> set (voxels s). i \<in> set l)"

section \<open>Reports and example inputs\<close>

text \<open>
  \<open>extends lg r\<close>: the log returned in \<open>r\<close> is \<open>lg\<close> followed by the reports made since
  (the reporter is append-only).
\<close>

definition extends :: "log \<Rightarrow> 'r reported \<Rightarrow> bool" where
  "extends lg r \<longleftrightarrow> (\<exists>ev. snd r = lg @ ev)"

text \<open>
  Inputs for the concrete evaluations below: a reporter that never raises; the two
  floating-point results computed in exact arithmetic, for inputs whose components are 0
  or 1, where the floating-point results are the same numbers; a bone node
  without meshes or children; a mesh of one vertex slot with a given attribute set; a mesh
  of one slot with a given exact tuple and normal; and a stand-in for the welding function
  that yields one fused vertex per mesh, at the origin, with the attribute set as its
  bone-weight tuple.
\<close>

definition lenient :: "severity \<Rightarrow> bool" where
  "lenient sev = False"

definition exact_ops :: float_ops where
  "exact_ops = \<lparr> vector_dot = dot4, float_sum_fabs = sum_fabs \<rparr>"

definition no_str :: "nat \<Rightarrow> string" where
  "no_str a = []"

definition leaf :: "string \<Rightarrow> NodeType \<Rightarrow> (nat, nat) GMDNode" where
  "leaf nm ty = GMDNode nm GMDBone ty [] [] [] [] [] [] [] [] []"

definition mesh_of :: "nat \<Rightarrow> (nat, nat) GMDMesh" where
  "mesh_of a =
     \<lparr> attribute_set = a, triangle_strip_noreset_indices = [0],
       vertices_data =
         \<lparr> bone_and_weight_data = False,
           slots = [\<lparr> exact_unskinned = 0, exact_skinned = 0,
                      raw_normal = Some [1, 0, 0], raw_tangent = None \<rparr>] \<rparr> \<rparr>"

definition keyed_mesh :: "nat \<Rightarrow> real list \<Rightarrow> (nat, nat) GMDMesh" where
  "keyed_mesh k n =
     \<lparr> attribute_set = 0, triangle_strip_noreset_indices = [0],
       vertices_data =
         \<lparr> bone_and_weight_data = False,
           slots = [\<lparr> exact_unskinned = k, exact_skinned = k,
                      raw_normal = Some n, raw_tangent = None \<rparr>] \<rparr> \<rparr>"

definition one_fused_per_mesh :: "bool \<Rightarrow> (nat, nat) GMDMesh list \<Rightarrow> nat fused_vert list" where
  "one_fused_per_mesh skinned ms = map (\<lambda>m. (Vector 0 0 0, None, attribute_set m)) ms"

section \<open>Approximate equality and the vertex sets\<close>

text \<open>
  C1. \<^verbatim>\<open>x.approx_eq(x)\<close> is true when \<^verbatim>\<open>x.normal\<close> is absent; when the normal is present
  it is true exactly when \<^verbatim>\<open>Vector(x.normal).dot(Vector(x.normal))\<close>, as \<^verbatim>\<open>mathutils\<close> computes
  it, is not below the float \<^verbatim>\<open>0.9\<close>. (The threshold is applied to the dot product of the
  stored tuples, which are not normalised.)
\<close>

theorem approx_eq_self:
  "approx_eq fo x x =
     (case normal x of None \<Rightarrow> True | Some n \<Rightarrow> \<not> vector_dot fo n n < float_0_9)"
  by (simp add: approx_eq_def split: option.splits)

text \<open>
  A fingerprint built by \<^verbatim>\<open>VertApproxData.new\<close> from a zero normal is not \<^verbatim>\<open>approx_eq\<close> to
  itself: the dot product is 0, in floating point as in exact arithmetic, below the
  threshold.
\<close>

theorem approx_eq_self_counterexample:
  "\<not> approx_eq exact_ops
       (VertApproxData_new (Some [0, 0, 0]) None) (VertApproxData_new (Some [0, 0, 0]) None)"
  by (simp add: approx_eq_def VertApproxData_new_def rounded_tuple4_def resized4_def
      py_round_def round_half_even_def dot4_def exact_ops_def float_0_9_def)

lemma differing_va_empty:
  "differing_va fo s t k = [] \<longleftrightarrow>
     (\<forall>v \<in> set (get_verts s k). \<exists>w \<in> set (get_verts t k). approx_eq fo v w)"
  by (simp add: differing_va_def filter_empty_conv list_ex_iff)

text \<open>
  C2. For every vertex set \<open>s\<close>, \<^verbatim>\<open>s.exact_difference(s)\<close> is empty, and \<^verbatim>\<open>s.difference(s)\<close>
  is empty exactly when every fingerprint stored in \<open>s\<close> is \<^verbatim>\<open>approx_eq\<close> to some
  fingerprint stored under the same key.
\<close>

theorem difference_self:
  "exact_difference s s = {} \<and>
   (difference fo s s = [] \<longleftrightarrow>
      (\<forall>k \<in> set (keys s). \<forall>v \<in> set (get_verts s k). \<exists>w \<in> set (get_verts s k). approx_eq fo v w))"
proof -
  have "exact_difference s s = {}"
    by (simp add: exact_difference_def)
  moreover have "difference fo s s = [] \<longleftrightarrow> (\<forall>k \<in> set (keys s). differing_va fo s s k = [])"
    by (auto simp add: difference_def Let_def filter_empty_conv)
  ultimately show ?thesis
    by (simp add: differing_va_empty)
qed

theorem difference_self_witness:
  "exact_difference (VertSet_of [(0::nat, VertApproxData_new (Some [1, 0, 0]) None)])
     (VertSet_of [(0::nat, VertApproxData_new (Some [1, 0, 0]) None)]) = {} \<and>
   difference exact_ops (VertSet_of [(0::nat, VertApproxData_new (Some [1, 0, 0]) None)])
     (VertSet_of [(0::nat, VertApproxData_new (Some [1, 0, 0]) None)]) = []"
  using difference_self [of "VertSet_of [(0::nat, VertApproxData_new (Some [1, 0, 0]) None)]"
      exact_ops]
  by (simp add: VertSet_of_def VertSet_add_def VertSet_init_def get_verts_def keys_def
      approx_eq_def VertApproxData_new_def rounded_tuple4_def resized4_def
      py_round_def round_half_even_def dot4_def exact_ops_def float_0_9_def)

text \<open>
  A set that holds one fingerprint with a zero normal differs from itself: the tolerant
  difference returns that fingerprint.
\<close>

theorem difference_self_counterexample:
  "difference exact_ops (VertSet_of [(0::nat, VertApproxData_new (Some [0, 0, 0]) None)])
     (VertSet_of [(0::nat, VertApproxData_new (Some [0, 0, 0]) None)])
   = [(0, [VertApproxData_new (Some [0, 0, 0]) None])]"
  by (simp add: difference_def differing_va_def VertSet_of_def VertSet_add_def VertSet_init_def
      get_verts_def keys_def
      approx_eq_def VertApproxData_new_def rounded_tuple4_def resized4_def
      py_round_def round_half_even_def dot4_def exact_ops_def float_0_9_def)

section \<open>Voxel buckets\<close>


lemma dd_get_touch: "dd_get (dd_touch d k) k' = dd_get d k'"
proof (cases "map_of d k'")
  case None
  then show ?thesis by (simp add: dd_get_def dd_touch_def map_add_def)
next
  case (Some l)
  then show ?thesis by (simp add: dd_get_def dd_touch_def map_add_def)
qed





section \<open>The one-to-one check\<close>

lemma dd_get_foldl_touch: "dd_get (foldl dd_touch d ks) k' = dd_get d k'"
  by (induction ks arbitrary: d) (simp_all add: dd_get_touch)

lemma gather_other_eq:
  "gather_other d ks acc = (acc @ concat (map (dd_get d) ks), foldl dd_touch d ks)"
proof (induction ks arbitrary: d acc)
  case Nil
  then show ?case by simp
next
  case (Cons k ks)
  have "dd_get (dd_touch d k) = dd_get d"
    by (rule ext) (simp add: dd_get_touch)
  then show ?case
    by (simp add: Cons.IH Let_def)
qed

lemma dd_get_mem: "i \<in> set (dd_get d k) \<Longrightarrow> \<exists>l. (k, l) \<in> set d \<and> i \<in> set l"
  by (cases "map_of d k") (auto simp add: dd_get_def dest: map_of_SomeD)

lemma dd_get_distinct: "distinct (map fst d) \<Longrightarrow> (k, l) \<in> set d \<Longrightarrow> dd_get d k = l"
  by (simp add: dd_get_def)

lemma dd_get_absent: "k \<notin> fst ` set d \<Longrightarrow> dd_get d k = []"
  by (simp add: dd_get_def map_of_eq_None_iff [THEN iffD2])

lemma idx_ok_touch: "idx_ok d n \<Longrightarrow> idx_ok (dd_touch d k) n"
  by (auto simp add: idx_ok_def dd_touch_def)

lemma idx_ok_foldl_touch: "idx_ok d n \<Longrightarrow> idx_ok (foldl dd_touch d ks) n"
  by (induction ks arbitrary: d) (simp_all add: idx_ok_touch)

lemma idx_ok_gets: "idx_ok d n \<Longrightarrow> list_all (\<lambda>i. i < n) (concat (map (dd_get d) ks))"
  by (auto simp add: idx_ok_def list_all_iff dest!: dd_get_mem)

lemma present_filter:
  "concat (map (dd_get d) (filter (\<lambda>k. k \<in> fst ` set d) ks)) = concat (map (dd_get d) ks)"
  by (induction ks) (simp_all add: dd_get_absent)

lemma other_search_space_ok:
  assumes "idx_ok (voxels (h other)) (length (fused_verts (h other)))"
  shows "other_search_space h other k =
     Inr (map (\<lambda>i. (i, fused_verts (h other) ! i)) (search_idxs (voxels (h other)) k),
          h(other := (h other) \<lparr> voxels := foldl dd_touch (voxels (h other)) (neighbour_keys k) \<rparr>))"
  using idx_ok_gets [OF assms, of "neighbour_keys k"]
  by (simp add: other_search_space_def gather_other_eq index_all_def search_idxs_def)

lemma self_search_space_ok:
  assumes "idx_ok (voxels (h self)) (length (fused_verts (h self)))"
  shows "self_search_space h self k =
     Inr (map (\<lambda>i. (i, fused_verts (h self) ! i)) (search_idxs (voxels (h self)) k))"
  using idx_ok_gets [OF assms, of "neighbour_keys k"]
  by (simp add: self_search_space_def present_filter index_all_def search_idxs_def)

lemma vert_loop_returns:
  "\<forall>v \<in> set vs. v < length fv \<Longrightarrow> \<exists>acc'. vert_loop fv osp ssp eps2 vs acc = Inr acc'"
proof (induction vs arbitrary: acc)
  case Nil
  then show ?case by (simp del: split_paired_Ex)
next
  case (Cons v vs)
  obtain a b c where acc: "acc = (a, b, c)" by (metis prod_cases3)
  from Cons show ?case
    by (simp add: acc Let_def split: prod.splits del: split_paired_Ex)
qed





lemma touched_refl: "touched h h other"
  by (simp add: touched_def)

lemma touched_trans: "touched h h' other \<Longrightarrow> touched h' h'' other \<Longrightarrow> touched h h'' other"
  by (simp add: touched_def)

lemma other_search_space_touched:
  "other_search_space h other k = Inr (sp, h') \<Longrightarrow> touched h h' other"
  by (auto simp add: other_search_space_def gather_other_eq touched_def dd_get_foldl_touch
      idx_ok_foldl_touch split: sum.splits)

lemma voxel_body_touched:
  "voxel_body h self other eps2 k vs acc = Inr (acc', h') \<Longrightarrow> touched h h' other"
  by (auto simp add: voxel_body_def split: sum.splits prod.splits
      dest: other_search_space_touched)

lemma voxel_loop_touched:
  "voxel_loop h self other eps2 n0 es acc = Inr (acc', h') \<Longrightarrow> touched h h' other"
proof (induction es arbitrary: h acc)
  case Nil
  then show ?case by (simp add: touched_refl split: if_splits)
next
  case (Cons a es)
  obtain k vs where a: "a = (k, vs)" by (cases a)
  show ?case
  proof (cases "voxel_body h self other eps2 k vs acc")
    case (Inl e')
    with Cons.prems show ?thesis
      by (simp add: a split: if_splits)
  next
    case (Inr r)
    obtain acc1 h1 where r: "r = (acc1, h1)" by (cases r)
    from Inr have "touched h h1 other"
      by (simp add: r voxel_body_touched)
    moreover from Cons.prems Inr have "voxel_loop h1 self other eps2 n0 es acc1 = Inr (acc', h')"
      by (simp add: a r split: if_splits)
    then have "touched h1 h' other"
      by (rule Cons.IH)
    ultimately show ?thesis
      by (rule touched_trans)
  qed
qed

lemma distinct_touch: "distinct (map fst d) \<Longrightarrow> distinct (map fst (dd_touch d k))"
  by (simp add: dd_touch_def)

lemma touch_present: "k \<in> fst ` set (dd_touch d k)"
  by (simp add: dd_touch_def)

lemma set_touch: "set (dd_touch d k) \<subseteq> insert (k, []) (set d)"
  by (auto simp add: dd_touch_def)

lemma set_touch_mono: "set d \<subseteq> set (dd_touch d k)"
  by (auto simp add: dd_touch_def)

lemma wf_init: "wf_voxel_set (FusedVertVoxelSet_init vsz)"
  by (simp add: wf_voxel_set_def FusedVertVoxelSet_init_def idx_ok_def)

lemma mem_distinct_iff:
  "distinct (map fst d) \<Longrightarrow> (k, l) \<in> set d \<longleftrightarrow> map_of d k = Some l"
  by simp

lemma wf_add:
  assumes wf: "wf_voxel_set s" and add: "FusedVertVoxelSet_add s p n bw = Inr s'"
  shows "wf_voxel_set s' \<and> voxel_size s' = voxel_size s"
proof -
  define vk where "vk = voxel_of (voxel_size s) p"
  define d where "d = dd_touch (voxels s) vk"
  define m where "m = length (fused_verts s)"
  define d' where "d' = AList.update vk (dd_get d vk @ [m]) d"
  from add have s': "s' = s \<lparr> voxels := d', fused_verts := fused_verts s @ [(p, n, bw)] \<rparr>"
    by (simp add: FusedVertVoxelSet_add_def Let_def vk_def d_def m_def d'_def split: if_splits)
  from wf have dist0: "distinct (map fst (voxels s))"
    and ok0: "idx_ok (voxels s) m"
    and cov0: "\<forall>i < m. \<exists>(k, l) \<in> set (voxels s). i \<in> set l"
    by (simp_all add: wf_voxel_set_def m_def)
  have dist: "distinct (map fst d)"
    using dist0 by (simp add: d_def distinct_touch)
  have dist': "distinct (map fst d')"
    using dist by (simp add: d'_def distinct_update)
  have mo: "map_of d' = (map_of d)(vk \<mapsto> dd_get d vk @ [m])"
    by (simp add: d'_def update_conv')
  have okd: "idx_ok d m"
    using ok0 by (simp add: d_def idx_ok_touch)
  have ok': "idx_ok d' (Suc m)"
    unfolding idx_ok_def
  proof (clarify)
    fix k l i
    assume "(k, l) \<in> set d'" and i: "i \<in> set l"
    then have "map_of d' k = Some l"
      using dist' by simp
    then have "l = dd_get d vk @ [m] \<or> (k, l) \<in> set d"
      by (auto simp add: mo split: if_splits dest: map_of_SomeD)
    then show "i < Suc m"
    proof
      assume "l = dd_get d vk @ [m]"
      with i have "i = m \<or> i \<in> set (dd_get d vk)" by auto
      then show ?thesis
      proof
        assume "i = m"
        then show ?thesis by simp
      next
        assume "i \<in> set (dd_get d vk)"
        then obtain l' where "(vk, l') \<in> set d" and "i \<in> set l'"
          using dd_get_mem by blast
        with okd have "i < m" by (force simp add: idx_ok_def)
        then show ?thesis by simp
      qed
    next
      assume "(k, l) \<in> set d"
      with okd i show ?thesis by (force simp add: idx_ok_def)
    qed
  qed
  have cov': "\<forall>i < Suc m. \<exists>(k, l) \<in> set d'. i \<in> set l"
  proof (intro allI impI)
    fix i
    assume "i < Suc m"
    then consider "i = m" | "i < m" by linarith
    then show "\<exists>(k, l) \<in> set d'. i \<in> set l"
    proof cases
      case 1
      have "map_of d' vk = Some (dd_get d vk @ [m])" by (simp add: mo)
      then have "(vk, dd_get d vk @ [m]) \<in> set d'" by (rule map_of_SomeD)
      then show ?thesis using 1
        by (intro bexI [of _ "(vk, dd_get d vk @ [m])"]) simp_all
    next
      case 2
      with cov0 obtain k l where kl: "(k, l) \<in> set (voxels s)" and i: "i \<in> set l" by blast
      from kl have kld: "(k, l) \<in> set d"
        using set_touch_mono [of "voxels s" vk] by (auto simp add: d_def)
      show ?thesis
      proof (cases "k = vk")
        case True
        from kld dist have "dd_get d vk = l" by (simp add: True [symmetric] dd_get_distinct)
        moreover have "map_of d' vk = Some (dd_get d vk @ [m])" by (simp add: mo)
        then have "(vk, dd_get d vk @ [m]) \<in> set d'" by (rule map_of_SomeD)
        ultimately show ?thesis using i
          by (intro bexI [of _ "(vk, dd_get d vk @ [m])"]) simp_all
      next
        case False
        from kld dist have "map_of d k = Some l" by simp
        with False have "map_of d' k = Some l" by (simp add: mo)
        then have "(k, l) \<in> set d'" by (rule map_of_SomeD)
        then show ?thesis using i
          by (intro bexI [of _ "(k, l)"]) simp_all
      qed
    qed
  qed
  show ?thesis
    using dist' ok' cov' by (simp add: wf_voxel_set_def s' m_def)
qed

lemma wf_add_all:
  "wf_voxel_set s \<Longrightarrow> add_all s vs = Inr s' \<Longrightarrow> wf_voxel_set s' \<and> voxel_size s' = voxel_size s"
proof (induction vs arbitrary: s)
  case Nil
  then show ?case by simp
next
  case (Cons v vs)
  obtain p n bw where v: "v = (p, n, bw)" by (metis prod_cases3)
  from Cons.prems(2) obtain s1 where
    s1: "FusedVertVoxelSet_add s p n bw = Inr s1" and rest: "add_all s1 vs = Inr s'"
    by (auto simp add: v split: sum.splits)
  from wf_add [OF Cons.prems(1) s1] Cons.IH [OF _ rest] show ?case
    by simp
qed

lemma built_wf:
  "add_all (FusedVertVoxelSet_init vsz) vs = Inr s \<Longrightarrow> wf_voxel_set s \<and> voxel_size s = vsz"
  using wf_add_all [OF wf_init, of vsz vs s] by (simp add: FusedVertVoxelSet_init_def)

lemma add_all_returns:
  "voxel_size s \<noteq> 0 \<Longrightarrow> \<exists>s'. add_all s vs = Inr s'"
proof (induction vs arbitrary: s)
  case Nil
  then show ?case by simp
next
  case (Cons v vs)
  obtain p n bw where v: "v = (p, n, bw)" by (metis prod_cases3)
  from Cons.prems obtain s1 where s1: "FusedVertVoxelSet_add s p n bw = Inr s1"
    and vs1: "voxel_size s1 = voxel_size s"
    by (simp add: FusedVertVoxelSet_add_def Let_def)
  with Cons.IH [of s1] Cons.prems show ?case
    by (simp add: v)
qed

lemma voxel_body_distinct:
  assumes "self \<noteq> other"
    and "idx_ok (voxels (h self)) (length (fused_verts (h self)))"
    and "idx_ok (voxels (h other)) (length (fused_verts (h other)))"
  shows "voxel_body h self other eps2 k vs acc =
     (case vert_loop (fused_verts (h self))
             (map (\<lambda>i. (i, fused_verts (h other) ! i)) (search_idxs (voxels (h other)) k))
             (map (\<lambda>i. (i, fused_verts (h self) ! i)) (search_idxs (voxels (h self)) k))
             eps2 vs acc of
        Inl e \<Rightarrow> Inl e
      | Inr acc' \<Rightarrow>
          Inr (acc', h(other := (h other)
                 \<lparr> voxels := foldl dd_touch (voxels (h other)) (neighbour_keys k) \<rparr>)))"
proof -
  let ?h' = "h(other := (h other)
                 \<lparr> voxels := foldl dd_touch (voxels (h other)) (neighbour_keys k) \<rparr>)"
  have self': "?h' self = h self"
    using assms(1) by simp
  have "idx_ok (voxels (?h' self)) (length (fused_verts (?h' self)))"
    using assms(2) by (simp only: self')
  from self_search_space_ok [of ?h' self k, OF this]
  have ss: "self_search_space ?h' self k =
      Inr (map (\<lambda>i. (i, fused_verts (h self) ! i)) (search_idxs (voxels (h self)) k))"
    by (simp only: self')
  have fv: "fused_verts (?h' self) = fused_verts (h self)"
    by (simp only: self')
  show ?thesis
    unfolding voxel_body_def other_search_space_ok [of h other k, OF assms(3)]
    by (simp only: ss fv sum.case prod.case)
qed

lemma voxel_loop_returns:
  assumes "self \<noteq> other"
    and "idx_ok (voxels (h self)) (length (fused_verts (h self)))"
    and "idx_ok (voxels (h other)) (length (fused_verts (h other)))"
    and "idx_ok es (length (fused_verts (h self)))"
    and "length (voxels (h self)) = n0"
  shows "\<exists>r. voxel_loop h self other eps2 n0 es acc = Inr r"
  using assms
proof (induction es arbitrary: h acc)
  case Nil
  then show ?case by (simp del: split_paired_Ex)
next
  case (Cons a es)
  obtain k vs where a: "a = (k, vs)" by (cases a)
  let ?h' = "h(other := (h other)
                 \<lparr> voxels := foldl dd_touch (voxels (h other)) (neighbour_keys k) \<rparr>)"
  from Cons.prems(4) have vs: "\<forall>v \<in> set vs. v < length (fused_verts (h self))"
    and es: "idx_ok es (length (fused_verts (h self)))"
    by (auto simp add: a idx_ok_def)
  from vert_loop_returns [of vs "fused_verts (h self)", OF vs] obtain acc' where
    "vert_loop (fused_verts (h self))
       (map (\<lambda>i. (i, fused_verts (h other) ! i)) (search_idxs (voxels (h other)) k))
       (map (\<lambda>i. (i, fused_verts (h self) ! i)) (search_idxs (voxels (h self)) k))
       eps2 vs acc = Inr acc'"
    by blast
  then have body: "voxel_body h self other eps2 k vs acc = Inr (acc', ?h')"
    using voxel_body_distinct [of self other h, OF Cons.prems(1,2,3)] by simp
  have self': "?h' self = h self"
    using Cons.prems(1) by simp
  have "\<exists>r. voxel_loop ?h' self other eps2 n0 es acc' = Inr r"
  proof (rule Cons.IH)
    show "self \<noteq> other" by fact
    show "idx_ok (voxels (?h' self)) (length (fused_verts (?h' self)))"
      using Cons.prems(2) by (simp only: self')
    show "idx_ok (voxels (?h' other)) (length (fused_verts (?h' other)))"
      using Cons.prems(3) by (simp add: idx_ok_foldl_touch)
    show "idx_ok es (length (fused_verts (?h' self)))"
      using es by (simp only: self')
    show "length (voxels (?h' self)) = n0"
      using Cons.prems(5) by (simp only: self')
  qed
  then show ?case
    using body Cons.prems(5) by (simp add: a)
qed

lemma check_one_to_one_returns:
  assumes "self \<noteq> other"
    and "wf_voxel_set (h self)" and "wf_voxel_set (h other)"
    and "voxel_size (h self) = voxel_size (h other)"
    and "pos_epsilon < voxel_size (h self)"
  shows "\<exists>r. check_one_to_one h self other pos_epsilon = Inr r"
proof -
  from assms(2) have ok: "idx_ok (voxels (h self)) (length (fused_verts (h self)))"
    by (simp add: wf_voxel_set_def)
  from assms(3) have ok': "idx_ok (voxels (h other)) (length (fused_verts (h other)))"
    by (simp add: wf_voxel_set_def)
  from voxel_loop_returns [of self other h "voxels (h self)", OF assms(1) ok ok' ok refl]
  obtain r where "voxel_loop h self other (pos_epsilon * pos_epsilon)
      (length (voxels (h self))) (voxels (h self)) ([], [], {}) = Inr r"
    by blast
  then show ?thesis
    using assms(4,5) by (simp add: check_one_to_one_def Let_def split: prod.splits)
qed













text \<open>
  What a call that returns leaves in the store: every object but \<open>other\<close> is as before;
  of \<open>other\<close> the vertex list and the voxel size are as before, and every bucket of its
  dictionary reads as before. Its dictionary itself may have grown by empty buckets.
\<close>

lemma check_one_to_one_touched:
  assumes "check_one_to_one h self other pos_epsilon = Inr (r, h')"
  shows "touched h h' other"
proof -
  from assms obtain acc where
    "voxel_loop h self other (pos_epsilon * pos_epsilon) (length (voxels (h self)))
       (voxels (h self)) ([], [], {}) = Inr (acc, h')"
    by (auto simp add: check_one_to_one_def Let_def split: if_splits sum.splits prod.splits)
  then show ?thesis
    by (rule voxel_loop_touched)
qed

text \<open>
  C7. \<^verbatim>\<open>check_one_to_one\<close> changes \<^verbatim>\<open>other.voxels\<close>: after a call with a one-vertex
  \<^verbatim>\<open>self\<close> and an empty \<^verbatim>\<open>other\<close>, the dictionary of \<^verbatim>\<open>other\<close> holds 64 (empty)
  buckets, where it held none before.
\<close>

theorem check_one_to_one_mutates_other:
  "map_sum id (\<lambda>(r, h'). (r, length (voxels (h' (Suc 0)))))
     (check_one_to_one
        (\<lambda>r. if r = 0 then \<lparr> voxels = [((0, 0, 0), [0])], voxel_size = 1,
                               fused_verts = [(Vector 0 0 0, None, 0::nat)] \<rparr>
              else \<lparr> voxels = [], voxel_size = 1, fused_verts = [] \<rparr>)
        0 (Suc 0) (1 / 2)) =
   Inr (([(Vector 0 0 0, None, 0)], [], []), 64)"
  by code_simp

section \<open>The drivers\<close>

lemma and_then_Inr [simp]: "and_then (Inr a, lg) f = f a lg"
  by (simp add: and_then_def)

lemma and_then_Inl [simp]: "and_then (Inl e, lg) f = (Inl e, lg)"
  by (simp add: and_then_def)

lemma report_eq:
  "and_then (report pol sev msg lg) (\<lambda>_ lg'. (Inr b, lg')) =
     (if pol sev then Inl ReporterAbort else Inr b, lg @ [(sev, msg)])"
  by (simp add: report_def)

text \<open>
  C3. Once both vertex sets are built, \<^verbatim>\<open>compare_same_layout_meshes\<close> depends on the exact
  differences first: if either is non-empty it makes exactly one report, a fatal one, and
  (unless the reporter raises) returns \<^verbatim>\<open>False\<close>; what it returns then does not depend on
  the tolerant differences. Only when both exact differences are empty do the tolerant
  differences decide: if either is non-empty the one report is recoverable and the result
  \<^verbatim>\<open>False\<close>; otherwise nothing is reported and the result is \<^verbatim>\<open>True\<close>.
\<close>

theorem compare_meshes_classification:
  assumes "unique_verts_of skinned src = Inr sv" and "unique_verts_of skinned dst = Inr dv"
  shows "compare_same_layout_meshes pol fo skinned src dst lg =
    (if exact_difference sv dv \<noteq> {} \<or> exact_difference dv sv \<noteq> {} then
       (if pol Fatal then Inl ReporterAbort else Inr False, lg @ [(Fatal, ExactDataDiffers)])
     else if difference fo sv dv \<noteq> [] \<or> difference fo dv sv \<noteq> [] then
       (if pol Recoverable then Inl ReporterAbort else Inr False,
        lg @ [(Recoverable, ApproxDataDiffers)])
     else (Inr True, lg))"
  using assms
  by (simp add: compare_same_layout_meshes_def compare_vert_sets_def Let_def report_eq)

theorem compare_meshes_classification_witness:
  "compare_same_layout_meshes lenient exact_ops False
     [keyed_mesh 0 [1, 0, 0]] [keyed_mesh 1 [1, 0, 0]] [] =
     (Inr False, [(Fatal, ExactDataDiffers)]) \<and>
   compare_same_layout_meshes lenient exact_ops False
     [keyed_mesh 0 [1, 0, 0]] [keyed_mesh 0 [0, 1, 0]] [] =
     (Inr False, [(Recoverable, ApproxDataDiffers)]) \<and>
   compare_same_layout_meshes lenient exact_ops False
     [keyed_mesh 0 [1, 0, 0]] [keyed_mesh 0 [1, 0, 0]] [] =
     (Inr True, [])"
proof -
  have e2: "compare_same_layout_meshes lenient exact_ops False
      [keyed_mesh 0 [1, 0, 0]] [keyed_mesh 0 [0, 1, 0]] [] =
     (Inr False, [(Recoverable, ApproxDataDiffers)])"
    by code_simp
  have e3: "compare_same_layout_meshes lenient exact_ops False
      [keyed_mesh 0 [1, 0, 0]] [keyed_mesh 0 [1, 0, 0]] [] = (Inr True, [])"
    by code_simp
  from compare_meshes_classification [where skinned = False
      and src = "[keyed_mesh 0 [1, 0, 0]]"
      and sv = "VertSet_add VertSet_init 0 (VertApproxData_new (Some [1, 0, 0]) None)"
      and dst = "[keyed_mesh 1 [1, 0, 0]]"
      and dv = "VertSet_add VertSet_init 1 (VertApproxData_new (Some [1, 0, 0]) None)"
      and pol = lenient and fo = exact_ops and lg = "[]"]
  have e1: "compare_same_layout_meshes lenient exact_ops False
      [keyed_mesh 0 [1, 0, 0]] [keyed_mesh 1 [1, 0, 0]] [] =
     (Inr False, [(Fatal, ExactDataDiffers)])"
    by (simp add: unique_verts_of_def get_unique_verts_def exact_difference_def keys_def
        VertSet_add_def VertSet_init_def get_verts_def keyed_mesh_def lenient_def)
  from e1 e2 e3 show ?thesis by blast
qed

lemma find_fusion_output_vs_returns:
  fixes fused :: "bool \<Rightarrow> ('k, 'a) GMDMesh list \<Rightarrow> 'b fused_vert list"
  shows "\<exists>s. find_fusion_output_vs fused skinned ms = Inr s \<and> wf_voxel_set s \<and>
       voxel_size s = default_voxel_size"
proof -
  have "voxel_size (FusedVertVoxelSet_init default_voxel_size :: 'b FusedVertVoxelSet) \<noteq> 0"
    by (simp add: FusedVertVoxelSet_init_def default_voxel_size_def)
  from add_all_returns [OF this, of "fused skinned ms"] obtain s where
    s: "add_all (FusedVertVoxelSet_init default_voxel_size) (fused skinned ms) = Inr s"
    by blast
  with built_wf [OF s] show ?thesis
    by (simp add: find_fusion_output_vs_def)
qed

text \<open>
  C4. \<^verbatim>\<open>compare_same_layout_mesh_vertex_fusions\<close> builds both fused sets, and
  \<^verbatim>\<open>check_one_to_one\<close> on them returns three lists. If any of the three is non-empty the
  one report is fatal; if all three are empty and the two counts of fused vertices differ
  the one report is recoverable; otherwise nothing is reported.
\<close>

theorem compare_fusion_classification:
  "\<exists>S D a b c h'.
     find_fusion_output_vs fused skinned src = Inr S \<and>
     find_fusion_output_vs fused skinned dst = Inr D \<and>
     check_one_to_one (\<lambda>r. if r = 0 then S else D) 0 (Suc 0) default_pos_epsilon =
       Inr ((a, b, c), h') \<and>
     compare_same_layout_mesh_vertex_fusions pol fused skinned src dst lg =
       (if a \<noteq> [] \<or> b \<noteq> [] \<or> c \<noteq> [] then
          (if pol Fatal then Inl ReporterAbort else Inr False, lg @ [(Fatal, FusedDontMatch)])
        else if length (fused_verts S) \<noteq> length (fused_verts D) then
          (if pol Recoverable then Inl ReporterAbort else Inr True,
           lg @ [(Recoverable, FusedCountDiffers)])
        else (Inr True, lg))"
proof -
  from find_fusion_output_vs_returns [of fused skinned src] obtain S where
    S: "find_fusion_output_vs fused skinned src = Inr S" and wfS: "wf_voxel_set S"
    and vS: "voxel_size S = default_voxel_size"
    by blast
  from find_fusion_output_vs_returns [of fused skinned dst] obtain D where
    D: "find_fusion_output_vs fused skinned dst = Inr D" and wfD: "wf_voxel_set D"
    and vD: "voxel_size D = default_voxel_size"
    by blast
  let ?h = "\<lambda>r::nat. if r = 0 then S else D"
  have "\<exists>r. check_one_to_one ?h 0 (Suc 0) default_pos_epsilon = Inr r"
    by (rule check_one_to_one_returns)
      (simp_all add: wfS wfD vS vD default_voxel_size_def default_pos_epsilon_def)
  then obtain a b c h' where
    chk: "check_one_to_one ?h 0 (Suc 0) default_pos_epsilon = Inr ((a, b, c), h')"
    by (metis prod_cases3 surj_pair)
  have "compare_same_layout_mesh_vertex_fusions pol fused skinned src dst lg =
       (if a \<noteq> [] \<or> b \<noteq> [] \<or> c \<noteq> [] then
          (if pol Fatal then Inl ReporterAbort else Inr False, lg @ [(Fatal, FusedDontMatch)])
        else if length (fused_verts S) \<noteq> length (fused_verts D) then
          (if pol Recoverable then Inl ReporterAbort else Inr True,
           lg @ [(Recoverable, FusedCountDiffers)])
        else (Inr True, lg))"
    using S D chk
    by (simp add: compare_same_layout_mesh_vertex_fusions_def compare_fused_sets_def Let_def
        report_eq)
  with S D chk show ?thesis by blast
qed

lemma extends_ret: "extends lg (x, lg)"
  by (simp add: extends_def)

lemma extends_report: "extends lg (report pol sev msg lg)"
  by (simp add: extends_def report_def)

lemma extends_and_then:
  assumes "extends lg r" and "\<And>a lg'. extends lg' (f a lg')"
  shows "extends lg (and_then r f)"
proof (cases r)
  case (Pair x l1)
  with assms(1) obtain ev where l1: "l1 = lg @ ev" by (auto simp add: extends_def)
  show ?thesis
  proof (cases x)
    case (Inl e)
    with Pair l1 show ?thesis by (simp add: extends_def)
  next
    case (Inr a)
    from assms(2) [of l1 a] obtain ev' where "snd (f a l1) = l1 @ ev'"
      by (auto simp add: extends_def)
    with Pair Inr l1 show ?thesis by (simp add: extends_def)
  qed
qed

lemma extends_compare_field: "extends lg (compare_field pol f differs lg)"
  by (simp add: compare_field_def extends_report extends_ret)

lemma extends_compare_vec_field: "extends lg (compare_vec_field pol fo f u v lg)"
  by (simp add: compare_vec_field_def Let_def extends_report extends_ret)

lemma extends_compare_mat_field: "extends lg (compare_mat_field pol fo f u v lg)"
  by (simp add: compare_mat_field_def Let_def extends_report extends_ret)

lemma extends_compare_vert_sets: "extends lg (compare_vert_sets pol fo sv dv lg)"
  by (simp add: compare_vert_sets_def Let_def extends_and_then extends_report extends_ret)

lemma extends_compare_same_layout_meshes:
  "extends lg (compare_same_layout_meshes pol fo skinned src dst lg)"
  by (simp add: compare_same_layout_meshes_def extends_compare_vert_sets extends_ret
      split: sum.splits)

lemma extends_compare_fused_sets: "extends lg (compare_fused_sets pol S D lg)"
  by (simp add: compare_fused_sets_def Let_def extends_and_then extends_report extends_ret
      split: sum.splits prod.splits)

lemma extends_compare_fusions:
  "extends lg (compare_same_layout_mesh_vertex_fusions pol fused skinned src dst lg)"
  by (simp add: compare_same_layout_mesh_vertex_fusions_def extends_compare_fused_sets
      extends_ret split: sum.splits)

lemma extends_compare_attr_groups:
  "extends lg (compare_attr_groups pol fo skinned src dst attrs identical lg)"
proof (induction attrs arbitrary: identical lg)
  case Nil
  show ?case by (simp add: extends_ret)
next
  case (Cons a attrs)
  show ?case
    by (simp only: compare_attr_groups.simps)
      (intro extends_and_then extends_compare_same_layout_meshes Cons.IH)
qed

lemma extends_compare_node_vertices:
  "extends lg (compare_node_vertices pol fo fused skinned src dst lg)"
  unfolding compare_node_vertices_def
  by (intro extends_and_then extends_compare_attr_groups extends_compare_fusions)
    (simp add: extends_report extends_ret)

lemma extends_compare_node_meshes:
  "extends lg (compare_node_meshes pol fo fused attr_str skinned vertices src dst lg)"
  unfolding compare_node_meshes_def Let_def
  by (auto intro!: extends_and_then extends_ret extends_report extends_compare_node_vertices)

lemma extends_node_tail:
  "extends lg
     (and_then (compare_vec_field pol fo ''pos'' (pos src) (pos dst) lg) (\<lambda>_ lg.
      and_then (compare_vec_field pol fo ''rot'' (rot src) (rot dst) lg) (\<lambda>_ lg.
      and_then (compare_vec_field pol fo ''scale'' (scale src) (scale dst) lg) (\<lambda>_ lg.
      and_then (compare_vec_field pol fo ''world_pos'' (world_pos src) (world_pos dst) lg) (\<lambda>_ lg.
      and_then (compare_vec_field pol fo ''anim_axis'' (anim_axis src) (anim_axis dst) lg) (\<lambda>_ lg.
      and_then (compare_field pol ''flags'' (flags src \<noteq> flags dst) lg) (\<lambda>_ lg.
      and_then
        (if node_class src \<noteq> GMDSkinnedObject then
           compare_mat_field pol fo ''matrix'' (matrix src) (matrix dst) lg
         else (Inr (), lg)) (\<lambda>_ lg.
      compare_node_meshes pol fo fused attr_str skinned vertices src dst lg))))))))"
  by (intro extends_and_then extends_compare_vec_field extends_compare_field
      extends_compare_node_meshes)
    (simp add: extends_compare_mat_field extends_ret)

lemma extends_compare_single_node_pair:
  "extends lg (compare_single_node_pair pol fo fused attr_str skinned vertices src dst lg)"
  unfolding compare_single_node_pair_def
  by (intro extends_and_then extends_compare_field extends_node_tail)

lemma extends_recursive:
  "extends lg (recursive_compare_node_lists pol fo fused attr_str skinned vertices src dst lg)"
  "extends lg (compare_children pol fo fused attr_str skinned vertices src dst lg)"
proof (induction pol fo fused attr_str skinned vertices src dst lg
    and pol fo fused attr_str skinned vertices src dst lg
    rule: recursive_compare_node_lists_compare_children.induct)
  case (1 pol fo fused attr_str skinned vertices src dst lg)
  show ?case
    by (simp only: recursive_compare_node_lists.simps)
      (intro extends_and_then "1.IH", simp_all add: extends_report extends_ret)
next
  case (2 pol fo fused attr_str skinned vertices dst lg)
  show ?case by (simp add: extends_ret)
next
  case (3 pol fo fused attr_str skinned vertices child_src ss lg)
  show ?case by (simp add: extends_ret)
next
  case (4 pol fo fused attr_str skinned vertices child_src ss child_dst ds lg)
  show ?case
    by (simp only: compare_children.simps)
      (intro extends_and_then extends_compare_single_node_pair "4.IH")
qed

lemma report_first:
  assumes "\<And>a lg'. extends lg' (f a lg')"
  shows "\<exists>rest. snd (and_then (report pol sev msg lg) f) = lg @ (sev, msg) # rest"
proof (cases "pol sev")
  case True
  then show ?thesis by (simp add: report_def)
next
  case False
  from assms [of "lg @ [(sev, msg)]" "()"] obtain ev where
    "snd (f () (lg @ [(sev, msg)])) = (lg @ [(sev, msg)]) @ ev"
    by (auto simp add: extends_def)
  with False show ?thesis by (simp add: report_def)
qed

declare recursive_compare_node_lists.simps [simp del]

lemma node_type_first:
  assumes "node_type s \<noteq> node_type d"
  shows "\<exists>rest. snd (compare_single_node_pair pol fo fused attr_str skinned vertices s d lg) =
         lg @ (Fatal, FieldDiffers ''node_type'') # rest"
proof -
  have cf: "compare_field pol ''node_type'' (node_type s \<noteq> node_type d) lg =
      report pol Fatal (FieldDiffers ''node_type'') lg"
    using assms by (simp add: compare_field_def)
  show ?thesis
    unfolding compare_single_node_pair_def cf
    by (rule report_first) (rule extends_node_tail)
qed

lemma compare_children_reaches:
  assumes "i < length src" and "i < length dst"
    and "node_type (src ! i) \<noteq> node_type (dst ! i)"
    and "fst (compare_children pol fo fused attr_str skinned vertices src dst lg) = Inr ()"
  shows "(Fatal, FieldDiffers ''node_type'') \<in>
     set (drop (length lg) (snd (compare_children pol fo fused attr_str skinned vertices src dst lg)))"
  using assms
proof (induction src arbitrary: dst i lg)
  case Nil
  then show ?case by simp
next
  case (Cons s ss)
  from Cons.prems(2) obtain d ds where dst: "dst = d # ds" by (cases dst) auto
  let ?r1 = "compare_single_node_pair pol fo fused attr_str skinned vertices s d lg"
  obtain x1 lg1 where r1: "?r1 = (x1, lg1)" by (cases ?r1)
  let ?r2 = "recursive_compare_node_lists pol fo fused attr_str skinned vertices
      (children s) (children d) lg1"
  obtain x2 lg2 where r2: "?r2 = (x2, lg2)" by (cases ?r2)
  let ?r3 = "compare_children pol fo fused attr_str skinned vertices ss ds lg2"
  from Cons.prems(4) have x1: "x1 = Inr ()"
    by (cases x1) (simp_all add: dst r1)
  from Cons.prems(4) have x2: "x2 = Inr ()"
    by (cases x2) (simp_all add: dst r1 x1 r2)
  have whole: "compare_children pol fo fused attr_str skinned vertices (s # ss) dst lg = ?r3"
    by (simp add: dst r1 x1 r2 x2)
  from extends_compare_single_node_pair [of lg pol fo fused attr_str skinned vertices s d]
  obtain ev1 where lg1: "lg1 = lg @ ev1" by (auto simp add: extends_def r1)
  from extends_recursive(1) [of lg1 pol fo fused attr_str skinned vertices "children s" "children d"]
  obtain ev2 where lg2: "lg2 = lg1 @ ev2" by (auto simp add: extends_def r2)
  from extends_recursive(2) [of lg2 pol fo fused attr_str skinned vertices ss ds]
  obtain ev3 where lg3: "snd ?r3 = lg2 @ ev3" by (auto simp add: extends_def)
  have "snd ?r3 = lg @ ev1 @ ev2 @ ev3"
    by (simp only: lg3) (simp add: lg2 lg1)
  then have dropped: "drop (length lg)
      (snd (compare_children pol fo fused attr_str skinned vertices (s # ss) dst lg)) = ev1 @ ev2 @ ev3"
    by (simp only: whole) simp
  have dropped2: "drop (length lg2) (snd ?r3) = ev3"
    by (simp only: lg3) simp
  show ?case
  proof (cases i)
    case 0
    with Cons.prems(3) have "node_type s \<noteq> node_type d" by (simp add: dst)
    then have "\<exists>rest. snd ?r1 = lg @ (Fatal, FieldDiffers ''node_type'') # rest"
      by (rule node_type_first)
    then obtain rest where "ev1 = (Fatal, FieldDiffers ''node_type'') # rest"
      by (auto simp add: r1 lg1)
    then show ?thesis
      by (simp only: dropped) simp
  next
    case (Suc j)
    from Cons.prems have "j < length ss" "j < length ds" "node_type (ss ! j) \<noteq> node_type (ds ! j)"
      by (simp_all add: Suc dst)
    moreover from Cons.prems(4) have "fst ?r3 = Inr ()"
      by (simp add: whole)
    ultimately have "(Fatal, FieldDiffers ''node_type'') \<in> set (drop (length lg2) (snd ?r3))"
      by (rule Cons.IH)
    then have "(Fatal, FieldDiffers ''node_type'') \<in> set ev3"
      by (simp only: dropped2)
    then show ?thesis
      by (simp only: dropped) simp
  qed
qed

lemma recursive_eq_children:
  assumes "fst (recursive_compare_node_lists pol fo fused attr_str skinned vertices src dst lg) = Inr ()"
  shows "\<exists>lg2 ev. lg2 = lg @ ev \<and>
     recursive_compare_node_lists pol fo fused attr_str skinned vertices src dst lg =
       compare_children pol fo fused attr_str skinned vertices src dst lg2"
proof -
  define A where "A = (if set (map name src) \<noteq> set (map name dst)
      then report pol Fatal ChildrenSetsDiffer lg else (Inr (), lg))"
  define B where "B = (\<lambda>lg1. if map name src \<noteq> map name dst
      then report pol Fatal ChildrenOrderDiffers lg1 else (Inr (), lg1))"
  define C where "C = (\<lambda>(u::unit) lg2. compare_children pol fo fused attr_str skinned vertices src dst lg2)"
  have rec: "recursive_compare_node_lists pol fo fused attr_str skinned vertices src dst lg =
      and_then A (\<lambda>_ lg1. and_then (B lg1) C)"
    by (simp only: recursive_compare_node_lists.simps A_def B_def C_def)
  obtain xa la where A: "A = (xa, la)" by (cases A)
  have "\<exists>ev. la = lg @ ev"
    using A by (auto simp add: A_def report_def split: if_splits)
  then obtain eva where la: "la = lg @ eva" by blast
  from assms have xa: "xa = Inr ()"
    by (cases xa) (simp_all only: rec A and_then_Inl and_then_Inr fst_conv sum.distinct, simp_all)
  obtain xb lb where B: "B la = (xb, lb)" by (cases "B la")
  have "\<exists>ev. lb = la @ ev"
    using B by (auto simp add: B_def report_def split: if_splits)
  then obtain evb where lb: "lb = la @ evb" by blast
  from assms have xb: "xb = Inr ()"
    by (cases xb) (simp_all only: rec A xa B and_then_Inl and_then_Inr fst_conv sum.distinct, simp_all)
  have "recursive_compare_node_lists pol fo fused attr_str skinned vertices src dst lg = C () lb"
    by (simp only: rec A xa B xb and_then_Inr)
  then have "recursive_compare_node_lists pol fo fused attr_str skinned vertices src dst lg =
       compare_children pol fo fused attr_str skinned vertices src dst lb"
    by (simp only: C_def)
  moreover have "lb = lg @ (eva @ evb)"
    by (simp add: lb la)
  ultimately show ?thesis by blast
qed

text \<open>
  C9. If the sets of child names differ, the first report of
  \<^verbatim>\<open>recursive_compare_node_lists\<close> is fatal (different sets of children). If the sets are
  equal and the name lists differ, its first report is fatal (children in different
  order). If the \<^verbatim>\<open>node_type\<close> fields of a pair differ, the first report of
  \<^verbatim>\<open>compare_single_node_pair\<close> is fatal (field differs); and whenever the traversal of two
  lists runs to its end, that fatal report has been made for every zipped pair whose
  \<^verbatim>\<open>node_type\<close> fields differ.
\<close>

theorem recursive_compare_fatal:
  "(set (map name src) \<noteq> set (map name dst) \<longrightarrow>
      (\<exists>rest. snd (recursive_compare_node_lists pol fo fused attr_str skinned vertices src dst lg) =
         lg @ (Fatal, ChildrenSetsDiffer) # rest)) \<and>
   (set (map name src) = set (map name dst) \<and> map name src \<noteq> map name dst \<longrightarrow>
      (\<exists>rest. snd (recursive_compare_node_lists pol fo fused attr_str skinned vertices src dst lg) =
         lg @ (Fatal, ChildrenOrderDiffers) # rest)) \<and>
   (node_type s \<noteq> node_type d \<longrightarrow>
      (\<exists>rest. snd (compare_single_node_pair pol fo fused attr_str skinned vertices s d lg) =
         lg @ (Fatal, FieldDiffers ''node_type'') # rest)) \<and>
   (i < length src \<and> i < length dst \<and> node_type (src ! i) \<noteq> node_type (dst ! i) \<and>
    fst (recursive_compare_node_lists pol fo fused attr_str skinned vertices src dst lg) = Inr () \<longrightarrow>
      (Fatal, FieldDiffers ''node_type'') \<in> set (drop (length lg)
         (snd (recursive_compare_node_lists pol fo fused attr_str skinned vertices src dst lg))))"
proof (intro conjI impI)
  assume c: "set (map name src) \<noteq> set (map name dst)"
  let ?K = "\<lambda>(_::unit) lg1.
      and_then
        (if map name src \<noteq> map name dst then report pol Fatal ChildrenOrderDiffers lg1
         else (Inr (), lg1))
        (\<lambda>_ lg2. compare_children pol fo fused attr_str skinned vertices src dst lg2)"
  have K: "extends lg' (?K a lg')" for a lg'
    by (auto intro!: extends_and_then extends_recursive extends_report extends_ret)
  from report_first [of ?K pol Fatal ChildrenSetsDiffer lg, OF K] c
  show "\<exists>rest. snd (recursive_compare_node_lists pol fo fused attr_str skinned vertices src dst lg) =
         lg @ (Fatal, ChildrenSetsDiffer) # rest"
    by (simp add: recursive_compare_node_lists.simps)
next
  assume "set (map name src) = set (map name dst) \<and> map name src \<noteq> map name dst"
  then show "\<exists>rest. snd (recursive_compare_node_lists pol fo fused attr_str skinned vertices src dst lg) =
         lg @ (Fatal, ChildrenOrderDiffers) # rest"
    by (simp add: recursive_compare_node_lists.simps report_first extends_recursive)
next
  assume "node_type s \<noteq> node_type d"
  then show "\<exists>rest. snd (compare_single_node_pair pol fo fused attr_str skinned vertices s d lg) =
         lg @ (Fatal, FieldDiffers ''node_type'') # rest"
    by (rule node_type_first)
next
  assume a: "i < length src \<and> i < length dst \<and> node_type (src ! i) \<noteq> node_type (dst ! i) \<and>
    fst (recursive_compare_node_lists pol fo fused attr_str skinned vertices src dst lg) = Inr ()"
  then have "fst (recursive_compare_node_lists pol fo fused attr_str skinned vertices src dst lg) = Inr ()"
    by blast
  from recursive_eq_children [OF this] obtain lg2 ev where lg2: "lg2 = lg @ ev"
    and eq: "recursive_compare_node_lists pol fo fused attr_str skinned vertices src dst lg =
       compare_children pol fo fused attr_str skinned vertices src dst lg2"
    by blast
  from a have i1: "i < length src" and i2: "i < length dst"
    and nt: "node_type (src ! i) \<noteq> node_type (dst ! i)"
    and fin: "fst (recursive_compare_node_lists pol fo fused attr_str skinned vertices src dst lg) = Inr ()"
    by blast+
  from fin have fin': "fst (compare_children pol fo fused attr_str skinned vertices src dst lg2) = Inr ()"
    by (simp only: eq)
  have "(Fatal, FieldDiffers ''node_type'') \<in>
     set (drop (length lg2) (snd (compare_children pol fo fused attr_str skinned vertices src dst lg2)))"
    using i1 i2 nt fin' by (rule compare_children_reaches)
  then have "(Fatal, FieldDiffers ''node_type'') \<in>
     set (drop (length lg) (snd (compare_children pol fo fused attr_str skinned vertices src dst lg2)))"
    using set_drop_subset_set_drop [of "length lg" "length lg2"
        "snd (compare_children pol fo fused attr_str skinned vertices src dst lg2)"]
    by (auto simp only: lg2 length_append le_add1)
  then show "(Fatal, FieldDiffers ''node_type'') \<in> set (drop (length lg)
         (snd (recursive_compare_node_lists pol fo fused attr_str skinned vertices src dst lg)))"
    by (simp only: eq)
qed

theorem compare_fusion_classification_witness:
  "compare_same_layout_mesh_vertex_fusions lenient one_fused_per_mesh False [mesh_of 0] [] [] =
     (Inr False, [(Fatal, FusedDontMatch)]) \<and>
   compare_same_layout_mesh_vertex_fusions lenient one_fused_per_mesh False
     [mesh_of 0, mesh_of 0] [mesh_of 0] [] = (Inr True, [(Recoverable, FusedCountDiffers)]) \<and>
   compare_same_layout_mesh_vertex_fusions lenient one_fused_per_mesh False
     [mesh_of 0] [mesh_of 0] [] = (Inr True, [])"
proof -
  have e1: "compare_same_layout_mesh_vertex_fusions lenient one_fused_per_mesh False
      [mesh_of 0] [] [] = (Inr False, [(Fatal, FusedDontMatch)])"
    by code_simp
  have e2: "compare_same_layout_mesh_vertex_fusions lenient one_fused_per_mesh False
     [mesh_of 0, mesh_of 0] [mesh_of 0] [] = (Inr True, [(Recoverable, FusedCountDiffers)])"
    by code_simp
  have e3: "compare_same_layout_mesh_vertex_fusions lenient one_fused_per_mesh False
     [mesh_of 0] [mesh_of 0] [] = (Inr True, [])"
    by code_simp
  from compare_fusion_classification [of one_fused_per_mesh False "[mesh_of 0]" "[]" lenient "[]"]
    e1 e2 e3
  show ?thesis by blast
qed

text \<open>
  C8. Two fused vertices of the source at one position with one bone-weight tuple, and one
  such vertex in the destination: the three lists of \<^verbatim>\<open>check_one_to_one\<close> are empty, the
  counts differ, so a recoverable mismatch is reported, and the function returns \<^verbatim>\<open>True\<close>.
  The vertex comparison of the node pair then emits the note that the meshes are
  functionally identical, after that report.
\<close>

theorem count_drift_returns_true:
  "compare_same_layout_mesh_vertex_fusions lenient one_fused_per_mesh False
     [mesh_of 0, mesh_of 0] [mesh_of 0] [] = (Inr True, [(Recoverable, FusedCountDiffers)]) \<and>
   compare_node_vertices lenient exact_ops one_fused_per_mesh False [mesh_of 0, mesh_of 0] [mesh_of 0] [] =
     (Inr (), [(Recoverable, FusedCountDiffers), (Info, MeshesIdentical)])"
  by code_simp

theorem recursive_compare_fatal_witness:
  "(\<exists>rest. snd (recursive_compare_node_lists lenient exact_ops one_fused_per_mesh no_str False False
        [leaf ''a'' MatrixTransform] [leaf ''b'' MatrixTransform] []) =
      (Fatal, ChildrenSetsDiffer) # rest) \<and>
   (\<exists>rest. snd (recursive_compare_node_lists lenient exact_ops one_fused_per_mesh no_str False False
        [leaf ''a'' MatrixTransform, leaf ''b'' MatrixTransform]
        [leaf ''b'' MatrixTransform, leaf ''a'' MatrixTransform] []) =
      (Fatal, ChildrenOrderDiffers) # rest) \<and>
   (\<exists>rest. snd (compare_single_node_pair lenient exact_ops one_fused_per_mesh no_str False False
        (leaf ''a'' MatrixTransform) (leaf ''a'' UnskinnedMesh) []) =
      (Fatal, FieldDiffers ''node_type'') # rest) \<and>
   (Fatal, FieldDiffers ''node_type'') \<in>
     set (snd (recursive_compare_node_lists lenient exact_ops one_fused_per_mesh no_str False False
        [leaf ''a'' MatrixTransform, leaf ''b'' MatrixTransform]
        [leaf ''a'' MatrixTransform, leaf ''b'' UnskinnedMesh] []))"
proof -
  have fin: "fst (recursive_compare_node_lists lenient exact_ops one_fused_per_mesh no_str False False
        [leaf ''a'' MatrixTransform, leaf ''b'' MatrixTransform]
        [leaf ''a'' MatrixTransform, leaf ''b'' UnskinnedMesh] []) = Inr ()"
    by code_simp
  from recursive_compare_fatal [where src = "[leaf ''a'' MatrixTransform]"
      and dst = "[leaf ''b'' MatrixTransform]" and lg = "[]" and pol = lenient and fo = exact_ops
      and fused = one_fused_per_mesh and attr_str = no_str and skinned = False
      and vertices = False]
  have a: "\<exists>rest. snd (recursive_compare_node_lists lenient exact_ops one_fused_per_mesh no_str False False
        [leaf ''a'' MatrixTransform] [leaf ''b'' MatrixTransform] []) =
      (Fatal, ChildrenSetsDiffer) # rest"
    by (simp add: leaf_def)
  from recursive_compare_fatal [where src = "[leaf ''a'' MatrixTransform, leaf ''b'' MatrixTransform]"
      and dst = "[leaf ''b'' MatrixTransform, leaf ''a'' MatrixTransform]" and lg = "[]"
      and pol = lenient and fo = exact_ops and fused = one_fused_per_mesh and attr_str = no_str and skinned = False
      and vertices = False]
  have b: "\<exists>rest. snd (recursive_compare_node_lists lenient exact_ops one_fused_per_mesh no_str False False
        [leaf ''a'' MatrixTransform, leaf ''b'' MatrixTransform]
        [leaf ''b'' MatrixTransform, leaf ''a'' MatrixTransform] []) =
      (Fatal, ChildrenOrderDiffers) # rest"
    by (simp add: leaf_def insert_commute)
  from recursive_compare_fatal [where s = "leaf ''a'' MatrixTransform"
      and d = "leaf ''a'' UnskinnedMesh" and lg = "[]"
      and pol = lenient and fo = exact_ops and fused = one_fused_per_mesh and attr_str = no_str and skinned = False
      and vertices = False]
  have c: "\<exists>rest. snd (compare_single_node_pair lenient exact_ops one_fused_per_mesh no_str False False
        (leaf ''a'' MatrixTransform) (leaf ''a'' UnskinnedMesh) []) =
      (Fatal, FieldDiffers ''node_type'') # rest"
    by (simp add: leaf_def)
  from recursive_compare_fatal [where src = "[leaf ''a'' MatrixTransform, leaf ''b'' MatrixTransform]"
      and dst = "[leaf ''a'' MatrixTransform, leaf ''b'' UnskinnedMesh]" and lg = "[]"
      and pol = lenient and fo = exact_ops and fused = one_fused_per_mesh and attr_str = no_str and skinned = False
      and vertices = False and i = 1] fin
  have d: "(Fatal, FieldDiffers ''node_type'') \<in>
     set (snd (recursive_compare_node_lists lenient exact_ops one_fused_per_mesh no_str False False
        [leaf ''a'' MatrixTransform, leaf ''b'' MatrixTransform]
        [leaf ''a'' MatrixTransform, leaf ''b'' UnskinnedMesh] []))"
    by (simp add: leaf_def)
  from a b c d show ?thesis by blast
qed


end
